theory Spec2Isabelle
  imports Main
begin

section \<open>Dates and times\<close>

text \<open>
  A naive Python \<open>datetime\<close> is a count of microseconds on the proleptic Gregorian
  calendar between \<open>datetime.min\<close> (0001-01-01T00:00:00) and \<open>datetime.max\<close>
  (9999-12-31T23:59:59.999999). It is modelled as the number of microseconds since
  \<open>datetime.min\<close>; a \<open>timedelta\<close> is a number of microseconds. Adding a
  \<open>timedelta\<close> raises \<open>OverflowError\<close> when the sum leaves the range.
\<close>

type_synonym datetime = int
type_synonym timedelta = int

datatype py_error = OverflowError | ValueError

definition DATETIME_MAX :: datetime where
  "DATETIME_MAX = 3652059 * 86400000000 - 1"

definition valid_datetime :: "datetime \<Rightarrow> bool" where
  "valid_datetime t \<longleftrightarrow> 0 \<le> t \<and> t \<le> DATETIME_MAX"

definition days :: "int \<Rightarrow> timedelta" where
  "days n = n * 86400000000"

definition seconds :: "int \<Rightarrow> timedelta" where
  "seconds n = n * 1000000"

definition datetime_add :: "datetime \<Rightarrow> timedelta \<Rightarrow> py_error + datetime" where
  "datetime_add t d = (if valid_datetime (t + d) then Inr (t + d) else Inl OverflowError)"

section \<open>Entity model\<close>

text \<open>
  The status of a book is free text in the source. Its two literals are Cyrillic words;
  the ASCII transliterations below stand for them.
\<close>

definition STATUS_AVAILABLE :: string where
  "STATUS_AVAILABLE = ''dostupna''"

definition STATUS_ON_LOAN :: string where
  "STATUS_ON_LOAN = ''vydana''"

text \<open>
  An \<open>Author\<close> object is never mutated by the engine, so the same record serves as
  the row of table \<open>authors\<close> and as the object built from it.
\<close>

record author =
  author_id :: int
  author_name :: string
  author_bio :: string

record book =
  book_id :: int
  book_title :: string
  book_author :: author
  book_year :: int
  book_status :: string

text \<open>
  \<open>Book\<close>, \<open>User\<close> and \<open>Loan\<close> objects are mutable and shared, so they live in a
  store and are referred to by address. A user's \<open>_borrowed_books\<close> is a list of
  addresses of book objects; membership in it is object identity, as \<open>Book\<close> defines
  no equality of its own.
\<close>

type_synonym addr = nat

record user =
  user_name :: string
  user_id :: int
  borrowed_books :: "addr list"

record loan =
  loan_id :: int
  loan_book :: addr
  loan_user :: addr
  issue_date :: datetime
  return_date :: "datetime option"

definition MAX_BOOKS :: nat where
  "MAX_BOOKS = 3"

definition LOAN_DAYS :: int where
  "LOAN_DAYS = 14"

definition is_available :: "book \<Rightarrow> bool" where
  "is_available b \<longleftrightarrow> book_status b = STATUS_AVAILABLE"

text \<open>\<open>User.borrow_book\<close> and \<open>User.return_book\<close>: the updated user and the boolean result.\<close>

definition borrow_book :: "user \<Rightarrow> addr \<Rightarrow> user \<times> bool" where
  "borrow_book u b =
     (if length (borrowed_books u) < MAX_BOOKS
      then (u\<lparr>borrowed_books := borrowed_books u @ [b]\<rparr>, True)
      else (u, False))"

definition user_return_book :: "user \<Rightarrow> addr \<Rightarrow> user \<times> bool" where
  "user_return_book u b =
     (if b \<in> set (borrowed_books u)
      then (u\<lparr>borrowed_books := remove1 b (borrowed_books u)\<rparr>, True)
      else (u, False))"

text \<open>\<open>Loan.is_overdue\<close>, with the reading of the clock as a parameter.\<close>

definition is_overdue :: "loan \<Rightarrow> datetime \<Rightarrow> py_error + bool" where
  "is_overdue l now =
     (case return_date l of
        None \<Rightarrow>
          (case datetime_add (issue_date l) (days LOAN_DAYS) of
             Inl e \<Rightarrow> Inl e
           | Inr due_date \<Rightarrow> Inr (now > due_date))
      | Some _ \<Rightarrow> Inr False)"

section \<open>The relational store\<close>

record book_row =
  br_id :: int
  br_title :: string
  br_author_id :: int
  br_year :: int
  br_status :: string

record user_row =
  ur_id :: int
  ur_name :: string

record loan_row =
  lr_id :: int
  lr_book_id :: int
  lr_user_id :: int
  lr_issue_date :: datetime
  lr_return_date :: "datetime option"

text \<open>
  A database is the rows of each table in rowid order, with the \<open>sqlite_sequence\<close>
  counter of each \<open>AUTOINCREMENT\<close> table. Timestamps are stored as ISO-8601 text, which
  \<open>fromisoformat\<close> reads back to the same \<open>datetime\<close>; the rows hold the value itself.
  Table \<open>librarians\<close> takes no part in lending and is left out.
\<close>

record database =
  authors :: "author list"
  books :: "book_row list"
  users :: "user_row list"
  loans :: "loan_row list"
  seq_authors :: int
  seq_books :: int
  seq_users :: int
  seq_loans :: int

text \<open>
  The connection runs in the default transaction mode of the \<open>sqlite3\<close> module: a
  data-changing statement opens a transaction that lasts until \<open>commit\<close> or
  \<open>rollback\<close>. \<open>working\<close> is the database as statements on the connection see it,
  \<open>committed\<close> the durable one.
\<close>

record connection =
  committed :: database
  working :: database

definition commit :: "connection \<Rightarrow> connection" where
  "commit c = c\<lparr>committed := working c\<rparr>"

definition rollback :: "connection \<Rightarrow> connection" where
  "rollback c = c\<lparr>working := committed c\<rparr>"

datatype sqlite_error = IntegrityError

text \<open>
  An \<open>AUTOINCREMENT\<close> key is one more than the largest rowid the table ever held.
  Foreign keys are declared but not enforced (the source never switches them on), so the
  only statements that can fail are the insert of a duplicate author name and the insert
  of a book with a non-positive year. Failures of the storage medium are outside the model.
\<close>

text \<open>
  A Python \<open>int\<close> bound to a statement parameter must fit SQLite's signed 64-bit
  \<open>INTEGER\<close>. For any other value the \<open>sqlite3\<close> module raises \<open>OverflowError\<close>
  while it binds the parameters, before the statement runs; \<open>OverflowError\<close> is not an
  \<open>sqlite3.Error\<close>.
\<close>

definition sqlite_int :: "int \<Rightarrow> bool" where
  "sqlite_int n \<longleftrightarrow> - (2 ^ 63) \<le> n \<and> n < 2 ^ 63"

definition next_rowid :: "int list \<Rightarrow> int \<Rightarrow> int" where
  "next_rowid ids seq = fold max ids seq + 1"

definition insert_author :: "database \<Rightarrow> string \<Rightarrow> string \<Rightarrow> sqlite_error + database \<times> int" where
  "insert_author db name bio =
     (if name \<in> set (map author_name (authors db)) then Inl IntegrityError
      else let i = next_rowid (map author_id (authors db)) (seq_authors db)
           in Inr (db\<lparr>authors := authors db @ [\<lparr>author_id = i, author_name = name, author_bio = bio\<rparr>],
                       seq_authors := i\<rparr>, i))"

definition insert_book :: "database \<Rightarrow> string \<Rightarrow> int \<Rightarrow> int \<Rightarrow> string \<Rightarrow> sqlite_error + database \<times> int" where
  "insert_book db title aid year status =
     (if year > 0
      then let i = next_rowid (map br_id (books db)) (seq_books db)
           in Inr (db\<lparr>books := books db @ [\<lparr>br_id = i, br_title = title, br_author_id = aid,
                                               br_year = year, br_status = status\<rparr>],
                       seq_books := i\<rparr>, i)
      else Inl IntegrityError)"

definition insert_user :: "database \<Rightarrow> string \<Rightarrow> database \<times> int" where
  "insert_user db name =
     (let i = next_rowid (map ur_id (users db)) (seq_users db)
      in (db\<lparr>users := users db @ [\<lparr>ur_id = i, ur_name = name\<rparr>], seq_users := i\<rparr>, i))"

definition insert_loan :: "database \<Rightarrow> int \<Rightarrow> int \<Rightarrow> datetime \<Rightarrow> database \<times> int" where
  "insert_loan db bid uid t =
     (let i = next_rowid (map lr_id (loans db)) (seq_loans db)
      in (db\<lparr>loans := loans db @ [\<lparr>lr_id = i, lr_book_id = bid, lr_user_id = uid,
                                      lr_issue_date = t, lr_return_date = None\<rparr>],
              seq_loans := i\<rparr>, i))"

definition update_book_title :: "database \<Rightarrow> int \<Rightarrow> string \<Rightarrow> database" where
  "update_book_title db bid t =
     db\<lparr>books := map (\<lambda>r. if br_id r = bid then r\<lparr>br_title := t\<rparr> else r) (books db)\<rparr>"

definition update_book_year :: "database \<Rightarrow> int \<Rightarrow> int \<Rightarrow> database" where
  "update_book_year db bid y =
     db\<lparr>books := map (\<lambda>r. if br_id r = bid then r\<lparr>br_year := y\<rparr> else r) (books db)\<rparr>"

definition update_book_status :: "database \<Rightarrow> int \<Rightarrow> string \<Rightarrow> database" where
  "update_book_status db bid st =
     db\<lparr>books := map (\<lambda>r. if br_id r = bid then r\<lparr>br_status := st\<rparr> else r) (books db)\<rparr>"

text \<open>\<open>UPDATE authors SET bio=? WHERE id=(SELECT author_id FROM books WHERE id=?)\<close>\<close>

definition update_author_bio_of_book :: "database \<Rightarrow> int \<Rightarrow> string \<Rightarrow> database" where
  "update_author_bio_of_book db bid bio =
     (case find (\<lambda>r. br_id r = bid) (books db) of
        None \<Rightarrow> db
      | Some r \<Rightarrow>
          db\<lparr>authors := map (\<lambda>a. if author_id a = br_author_id r then a\<lparr>author_bio := bio\<rparr> else a)
                            (authors db)\<rparr>)"

definition update_user_name :: "database \<Rightarrow> int \<Rightarrow> string \<Rightarrow> database" where
  "update_user_name db uid n =
     db\<lparr>users := map (\<lambda>r. if ur_id r = uid then r\<lparr>ur_name := n\<rparr> else r) (users db)\<rparr>"

definition update_loan_return_date :: "database \<Rightarrow> int \<Rightarrow> datetime \<Rightarrow> database" where
  "update_loan_return_date db lid t =
     db\<lparr>loans := map (\<lambda>r. if lr_id r = lid then r\<lparr>lr_return_date := Some t\<rparr> else r) (loans db)\<rparr>"

definition delete_book :: "database \<Rightarrow> int \<Rightarrow> database" where
  "delete_book db bid = db\<lparr>books := filter (\<lambda>r. br_id r \<noteq> bid) (books db)\<rparr>"

definition delete_user_row :: "database \<Rightarrow> int \<Rightarrow> database" where
  "delete_user_row db uid = db\<lparr>users := filter (\<lambda>r. ur_id r \<noteq> uid) (users db)\<rparr>"

text \<open>The single-row lookups \<open>_get_author_by_id\<close>, \<open>_get_book_by_id\<close>, \<open>_get_user_by_id\<close>.
  Each builds a fresh object from the row.\<close>

definition get_author_by_id :: "database \<Rightarrow> int \<Rightarrow> author option" where
  "get_author_by_id db aid = find (\<lambda>a. author_id a = aid) (authors db)"

definition book_of_row :: "database \<Rightarrow> book_row \<Rightarrow> book option" where
  "book_of_row db r =
     (case get_author_by_id db (br_author_id r) of
        None \<Rightarrow> None
      | Some a \<Rightarrow> Some \<lparr>book_id = br_id r, book_title = br_title r, book_author = a,
                        book_year = br_year r, book_status = br_status r\<rparr>)"

definition get_book_by_id :: "database \<Rightarrow> int \<Rightarrow> book option" where
  "get_book_by_id db bid =
     (case find (\<lambda>r. br_id r = bid) (books db) of
        None \<Rightarrow> None
      | Some r \<Rightarrow> book_of_row db r)"

definition user_of_row :: "user_row \<Rightarrow> user" where
  "user_of_row r = \<lparr>user_name = ur_name r, user_id = ur_id r, borrowed_books = []\<rparr>"

definition get_user_by_id :: "database \<Rightarrow> int \<Rightarrow> user option" where
  "get_user_by_id db uid = map_option user_of_row (find (\<lambda>r. ur_id r = uid) (users db))"

section \<open>The lending engine\<close>

text \<open>
  The state of a \<open>LibrarySystem\<close>: its connection, the store of objects (one partial
  map per class, with the next free address), and the lists \<open>_books\<close>, \<open>_users\<close>,
  \<open>_loans\<close> (addresses) and \<open>_authors\<close> (values).
\<close>

record library_system =
  conn :: connection
  book_heap :: "addr \<rightharpoonup> book"
  user_heap :: "addr \<rightharpoonup> user"
  loan_heap :: "addr \<rightharpoonup> loan"
  next_book :: addr
  next_user :: addr
  next_loan :: addr
  cache_books :: "addr list"
  cache_users :: "addr list"
  cache_loans :: "addr list"
  cache_authors :: "author list"

definition new_book :: "library_system \<Rightarrow> book \<Rightarrow> library_system \<times> addr" where
  "new_book s b =
     (s\<lparr>book_heap := (book_heap s)(next_book s \<mapsto> b), next_book := Suc (next_book s)\<rparr>, next_book s)"

definition new_user :: "library_system \<Rightarrow> user \<Rightarrow> library_system \<times> addr" where
  "new_user s u =
     (s\<lparr>user_heap := (user_heap s)(next_user s \<mapsto> u), next_user := Suc (next_user s)\<rparr>, next_user s)"

definition new_loan :: "library_system \<Rightarrow> loan \<Rightarrow> library_system \<times> addr" where
  "new_loan s l =
     (s\<lparr>loan_heap := (loan_heap s)(next_loan s \<mapsto> l), next_loan := Suc (next_loan s)\<rparr>, next_loan s)"

text \<open>The objects a list of references points to, each with its address.\<close>

definition deref :: "(addr \<rightharpoonup> 'a) \<Rightarrow> addr list \<Rightarrow> (addr \<times> 'a) list" where
  "deref h as = List.map_filter (\<lambda>a. map_option (Pair a) (h a)) as"

text \<open>\<open>get_books\<close>, \<open>get_users\<close>, \<open>get_loans\<close>, \<open>get_active_loans\<close>\<close>

definition get_books :: "library_system \<Rightarrow> (addr \<times> book) list" where
  "get_books s = deref (book_heap s) (cache_books s)"

definition get_users :: "library_system \<Rightarrow> (addr \<times> user) list" where
  "get_users s = deref (user_heap s) (cache_users s)"

definition get_loans :: "library_system \<Rightarrow> (addr \<times> loan) list" where
  "get_loans s = deref (loan_heap s) (cache_loans s)"

definition get_active_loans :: "library_system \<Rightarrow> (addr \<times> loan) list" where
  "get_active_loans s = filter (\<lambda>(a, l). return_date l = None) (get_loans s)"

text \<open>The searches \<open>next((x for x in xs if x.get_id() == i), None)\<close>.\<close>

definition find_book :: "library_system \<Rightarrow> int \<Rightarrow> (addr \<times> book) option" where
  "find_book s bid = find (\<lambda>(a, b). book_id b = bid) (get_books s)"

definition find_user :: "library_system \<Rightarrow> int \<Rightarrow> (addr \<times> user) option" where
  "find_user s uid = find (\<lambda>(a, u). user_id u = uid) (get_users s)"

definition find_loan :: "library_system \<Rightarrow> int \<Rightarrow> (addr \<times> loan) option" where
  "find_loan s lid = find (\<lambda>(a, l). loan_id l = lid) (get_loans s)"

subsection \<open>Loading\<close>

fun alloc_books :: "book list \<Rightarrow> library_system \<Rightarrow> library_system \<times> addr list" where
  "alloc_books [] s = (s, [])"
| "alloc_books (b # bs) s =
     (case new_book s b of (s1, a) \<Rightarrow>
        (case alloc_books bs s1 of (s2, as) \<Rightarrow> (s2, a # as)))"

fun alloc_users :: "user list \<Rightarrow> library_system \<Rightarrow> library_system \<times> addr list" where
  "alloc_users [] s = (s, [])"
| "alloc_users (u # us) s =
     (case new_user s u of (s1, a) \<Rightarrow>
        (case alloc_users us s1 of (s2, as) \<Rightarrow> (s2, a # as)))"

text \<open>\<open>_load_books\<close>: a row whose author does not resolve is skipped.\<close>

definition load_books :: "library_system \<Rightarrow> library_system \<times> addr list" where
  "load_books s =
     alloc_books (List.map_filter (book_of_row (working (conn s))) (books (working (conn s)))) s"

definition load_users :: "library_system \<Rightarrow> library_system \<times> addr list" where
  "load_users s = alloc_users (map user_of_row (users (working (conn s)))) s"

definition load_authors :: "library_system \<Rightarrow> author list" where
  "load_authors s = authors (working (conn s))"

text \<open>
  \<open>_load_loans\<close>: each row is resolved with \<open>_get_book_by_id\<close> and
  \<open>_get_user_by_id\<close>, which build a new \<open>Book\<close> and a new \<open>User\<close> for this loan; a
  row whose book or user does not resolve is dropped.
\<close>

fun load_loan_rows :: "loan_row list \<Rightarrow> library_system \<Rightarrow> library_system \<times> addr list" where
  "load_loan_rows [] s = (s, [])"
| "load_loan_rows (r # rs) s =
     (case get_book_by_id (working (conn s)) (lr_book_id r) of
        None \<Rightarrow> load_loan_rows rs s
      | Some b \<Rightarrow>
          (case get_user_by_id (working (conn s)) (lr_user_id r) of
             None \<Rightarrow> load_loan_rows rs s
           | Some u \<Rightarrow>
               (case new_book s b of (s1, ba) \<Rightarrow>
               (case new_user s1 u of (s2, ua) \<Rightarrow>
               (case new_loan s2 \<lparr>loan_id = lr_id r, loan_book = ba, loan_user = ua,
                                  issue_date = lr_issue_date r,
                                  return_date = lr_return_date r\<rparr> of (s3, la) \<Rightarrow>
               (case load_loan_rows rs s3 of (s4, las) \<Rightarrow> (s4, la # las)))))))"

definition load_loans :: "library_system \<Rightarrow> library_system \<times> addr list" where
  "load_loans s = load_loan_rows (loans (working (conn s))) s"

definition reload_books :: "library_system \<Rightarrow> library_system" where
  "reload_books s = (case load_books s of (s1, as) \<Rightarrow> s1\<lparr>cache_books := as\<rparr>)"

definition reload_users :: "library_system \<Rightarrow> library_system" where
  "reload_users s = (case load_users s of (s1, as) \<Rightarrow> s1\<lparr>cache_users := as\<rparr>)"

definition reload_loans :: "library_system \<Rightarrow> library_system" where
  "reload_loans s = (case load_loans s of (s1, as) \<Rightarrow> s1\<lparr>cache_loans := as\<rparr>)"

definition reload_authors :: "library_system \<Rightarrow> library_system" where
  "reload_authors s = s\<lparr>cache_authors := load_authors s\<rparr>"

text \<open>\<open>_init_demo_data\<close>; the names are transliterated.\<close>

definition demo_rows :: "database \<Rightarrow> sqlite_error + database" where
  "demo_rows db =
     (case insert_author db ''Lev Tolstoy'' ''Velikiy russkiy pisatel'' of
        Inl e \<Rightarrow> Inl e
      | Inr (db1, author1_id) \<Rightarrow>
     (case insert_author db1 ''Fyodor Dostoevskiy'' ''Klassik russkoy literatury'' of
        Inl e \<Rightarrow> Inl e
      | Inr (db2, author2_id) \<Rightarrow>
     (case insert_book db2 ''Voyna i mir'' author1_id 1869 STATUS_AVAILABLE of
        Inl e \<Rightarrow> Inl e
      | Inr (db3, _) \<Rightarrow>
     (case insert_book db3 ''Prestuplenie i nakazanie'' author2_id 1866 STATUS_AVAILABLE of
        Inl e \<Rightarrow> Inl e
      | Inr (db4, _) \<Rightarrow>
          Inr (fst (insert_user (fst (insert_user db4 ''Ivan Ivanov'')) ''Mariya Petrova''))))))"

definition init_demo_data :: "library_system \<Rightarrow> library_system" where
  "init_demo_data s =
     (case demo_rows (working (conn s)) of
        Inl e \<Rightarrow> s\<lparr>conn := rollback (conn s)\<rparr>
      | Inr db \<Rightarrow>
          reload_authors (reload_users (reload_books
            (s\<lparr>conn := commit ((conn s)\<lparr>working := db\<rparr>)\<rparr>))))"

text \<open>
  \<open>LibrarySystem.__init__\<close> on a store whose durable content is \<open>db\<close>. The tables
  exist already, so \<open>_create_tables\<close> changes nothing.
\<close>

definition empty_system :: "database \<Rightarrow> library_system" where
  "empty_system db =
     \<lparr>conn = \<lparr>committed = db, working = db\<rparr>,
      book_heap = Map.empty, user_heap = Map.empty, loan_heap = Map.empty,
      next_book = 0, next_user = 0, next_loan = 0,
      cache_books = [], cache_users = [], cache_loans = [], cache_authors = []\<rparr>"

definition init :: "database \<Rightarrow> library_system" where
  "init db =
     (let s = reload_authors (reload_loans (reload_users (reload_books (empty_system db))))
      in if cache_books s = [] then init_demo_data s else s)"

subsection \<open>Catalogue and users\<close>

text \<open>
  Each method catches \<open>sqlite3.Error\<close> only. An exception of another class
  (\<open>OverflowError\<close> from binding an integer outside the 64-bit range, \<open>ValueError\<close> from
  \<open>edit_book\<close>) reaches the caller as the left result, with neither commit nor rollback:
  the statements the call has run so far stay pending on the connection.
\<close>

definition add_book ::
  "library_system \<Rightarrow> string \<Rightarrow> string \<Rightarrow> string \<Rightarrow> int \<Rightarrow> library_system \<times> (py_error + bool)" where
  "add_book s title name bio year =
     (let db = working (conn s);
          r = (case find (\<lambda>a. author_name a = name) (authors db) of
                 Some a \<Rightarrow> Inr (db, author_id a)
               | None \<Rightarrow> insert_author db name bio)
      in case r of
           Inl e \<Rightarrow> (s\<lparr>conn := rollback (conn s)\<rparr>, Inr False)
         | Inr (db1, aid) \<Rightarrow>
             if \<not> sqlite_int year
             then (s\<lparr>conn := (conn s)\<lparr>working := db1\<rparr>\<rparr>, Inl OverflowError)
             else
               (case insert_book db1 title aid year STATUS_AVAILABLE of
                  Inl e \<Rightarrow> (s\<lparr>conn := rollback (conn s)\<rparr>, Inr False)
                | Inr (db2, _) \<Rightarrow>
                    (reload_authors (reload_books
                       (s\<lparr>conn := commit ((conn s)\<lparr>working := db2\<rparr>)\<rparr>)), Inr True)))"

definition remove_book :: "library_system \<Rightarrow> int \<Rightarrow> library_system \<times> (py_error + bool)" where
  "remove_book s bid =
     (if \<not> sqlite_int bid then (s, Inl OverflowError)
      else
        (reload_books (s\<lparr>conn := commit ((conn s)\<lparr>working := delete_book (working (conn s)) bid\<rparr>)\<rparr>),
         Inr True))"

text \<open>
  The three statements of \<open>edit_book\<close>, each run only when its field is given. The left
  result is the exception raised, with the store as the statements before it left it. A
  non-positive year raises \<open>ValueError\<close> before anything is bound.
\<close>

definition edit_title :: "database \<Rightarrow> int \<Rightarrow> string option \<Rightarrow> database \<times> py_error + database" where
  "edit_title db bid title =
     (case title of
        None \<Rightarrow> Inr db
      | Some t \<Rightarrow> if sqlite_int bid then Inr (update_book_title db bid t) else Inl (db, OverflowError))"

definition edit_year :: "database \<Rightarrow> int \<Rightarrow> int option \<Rightarrow> database \<times> py_error + database" where
  "edit_year db bid year =
     (case year of
        None \<Rightarrow> Inr db
      | Some y \<Rightarrow>
          if y > 0
          then (if sqlite_int y \<and> sqlite_int bid then Inr (update_book_year db bid y)
                else Inl (db, OverflowError))
          else Inl (db, ValueError))"

definition edit_bio :: "database \<Rightarrow> int \<Rightarrow> string option \<Rightarrow> database \<times> py_error + database" where
  "edit_bio db bid bio =
     (case bio of
        None \<Rightarrow> Inr db
      | Some t \<Rightarrow>
          if sqlite_int bid then Inr (update_author_bio_of_book db bid t) else Inl (db, OverflowError))"

definition edit_book ::
  "library_system \<Rightarrow> int \<Rightarrow> string option \<Rightarrow> int option \<Rightarrow> string option
     \<Rightarrow> library_system \<times> (py_error + bool)" where
  "edit_book s bid title year bio =
     (case edit_title (working (conn s)) bid title of
        Inl (db, e) \<Rightarrow> (s\<lparr>conn := (conn s)\<lparr>working := db\<rparr>\<rparr>, Inl e)
      | Inr db1 \<Rightarrow>
     (case edit_year db1 bid year of
        Inl (db, e) \<Rightarrow> (s\<lparr>conn := (conn s)\<lparr>working := db\<rparr>\<rparr>, Inl e)
      | Inr db2 \<Rightarrow>
     (case edit_bio db2 bid bio of
        Inl (db, e) \<Rightarrow> (s\<lparr>conn := (conn s)\<lparr>working := db\<rparr>\<rparr>, Inl e)
      | Inr db3 \<Rightarrow>
          (reload_books (s\<lparr>conn := commit ((conn s)\<lparr>working := db3\<rparr>)\<rparr>), Inr True))))"

definition register_user :: "library_system \<Rightarrow> string \<Rightarrow> library_system \<times> addr option" where
  "register_user s name =
     (case insert_user (working (conn s)) name of (db, uid) \<Rightarrow>
        (case new_user (s\<lparr>conn := commit ((conn s)\<lparr>working := db\<rparr>)\<rparr>)
                \<lparr>user_name = name, user_id = uid, borrowed_books = []\<rparr> of (s1, a) \<Rightarrow>
           (s1\<lparr>cache_users := cache_users s1 @ [a]\<rparr>, Some a)))"

definition edit_user :: "library_system \<Rightarrow> int \<Rightarrow> string \<Rightarrow> library_system \<times> (py_error + bool)" where
  "edit_user s uid name =
     (if \<not> sqlite_int uid then (s, Inl OverflowError)
      else
        let s1 = s\<lparr>conn := commit ((conn s)\<lparr>working := update_user_name (working (conn s)) uid name\<rparr>)\<rparr>
        in case find_user s1 uid of
             None \<Rightarrow> (s1, Inr True)
           | Some (a, u) \<Rightarrow> (s1\<lparr>user_heap := (user_heap s1)(a \<mapsto> u\<lparr>user_name := name\<rparr>)\<rparr>, Inr True))"

definition delete_user :: "library_system \<Rightarrow> int \<Rightarrow> library_system \<times> (py_error + bool)" where
  "delete_user s uid =
     (if \<not> sqlite_int uid then (s, Inl OverflowError)
      else
        let s1 = s\<lparr>conn := commit ((conn s)\<lparr>working := delete_user_row (working (conn s)) uid\<rparr>)\<rparr>
        in (s1\<lparr>cache_users := map fst (filter (\<lambda>(a, u). user_id u \<noteq> uid) (get_users s1))\<rparr>, Inr True))"

subsection \<open>Issue and return\<close>

text \<open>
  The ids that \<open>issue_book\<close> and \<open>return_book\<close> bind are those of objects found in the
  engine's lists, which were read from the store.
  \<open>issue_book\<close> returns \<open>None\<close> on each failed precondition and tells the reason only to
  the log. \<open>issue_book_logged\<close> is the method with that warning as its left result;
  \<open>issue_book\<close> is what the caller receives.
\<close>

datatype issue_warning = UserNotFound | BookNotFound | BookUnavailable | LimitReached

definition issue_book_logged ::
  "library_system \<Rightarrow> datetime \<Rightarrow> int \<Rightarrow> int \<Rightarrow> library_system \<times> (issue_warning + addr)" where
  "issue_book_logged s now uid bid =
     (let user = find_user s uid; book = find_book s bid
      in case user of
           None \<Rightarrow> (s, Inl UserNotFound)
         | Some (ua, u) \<Rightarrow>
        (case book of
           None \<Rightarrow> (s, Inl BookNotFound)
         | Some (ba, b) \<Rightarrow>
             if \<not> is_available b then (s, Inl BookUnavailable)
             else if length (borrowed_books u) \<ge> MAX_BOOKS then (s, Inl LimitReached)
             else
               (case insert_loan (working (conn s)) bid uid now of (db1, lid) \<Rightarrow>
                  let db2 = update_book_status db1 bid STATUS_ON_LOAN;
                      s1 = s\<lparr>conn := commit ((conn s)\<lparr>working := db2\<rparr>)\<rparr>
                  in (case new_loan s1 \<lparr>loan_id = lid, loan_book = ba, loan_user = ua,
                                        issue_date = now, return_date = None\<rparr> of (s2, la) \<Rightarrow>
                        let s3 = s2\<lparr>book_heap := (book_heap s2)(ba \<mapsto> b\<lparr>book_status := STATUS_ON_LOAN\<rparr>)\<rparr>;
                            s4 = s3\<lparr>user_heap := (user_heap s3)(ua \<mapsto> fst (borrow_book u ba))\<rparr>
                        in (s4\<lparr>cache_loans := cache_loans s4 @ [la]\<rparr>, Inr la)))))"

definition issue_book :: "library_system \<Rightarrow> datetime \<Rightarrow> int \<Rightarrow> int \<Rightarrow> library_system \<times> addr option" where
  "issue_book s now uid bid =
     (case issue_book_logged s now uid bid of
        (s1, Inl w) \<Rightarrow> (s1, None)
      | (s1, Inr la) \<Rightarrow> (s1, Some la))"

text \<open>
  \<open>return_book\<close>. A reference always points to an object, so \<open>loan.get_book()\<close> and
  \<open>loan.get_user()\<close> read the store with \<open>the\<close>.
\<close>

definition return_book :: "library_system \<Rightarrow> datetime \<Rightarrow> int \<Rightarrow> library_system \<times> bool" where
  "return_book s now lid =
     (case find_loan s lid of
        None \<Rightarrow> (s, False)
      | Some (la, l) \<Rightarrow>
          if return_date l \<noteq> None then (s, False)
          else
            let b = the (book_heap s (loan_book l));
                db1 = update_loan_return_date (working (conn s)) lid now;
                db2 = update_book_status db1 (book_id b) STATUS_AVAILABLE;
                s1 = s\<lparr>conn := commit ((conn s)\<lparr>working := db2\<rparr>)\<rparr>;
                s2 = s1\<lparr>loan_heap := (loan_heap s1)(la \<mapsto> l\<lparr>return_date := Some now\<rparr>)\<rparr>;
                s3 = s2\<lparr>book_heap := (book_heap s2)(loan_book l \<mapsto> b\<lparr>book_status := STATUS_AVAILABLE\<rparr>)\<rparr>;
                u = the (user_heap s3 (loan_user l))
            in (s3\<lparr>user_heap := (user_heap s3)(loan_user l \<mapsto> fst (user_return_book u (loan_book l)))\<rparr>,
                True))"

section \<open>Sequences of calls\<close>



section \<open>Reachable states\<close>

text \<open>
  The calls a client can make on the engine. \<open>Restart\<close> builds a new engine on the
  durable content of the store. The clock reading of an issue or a return is part of the
  call.
\<close>

datatype call =
    AddBook string string string int
  | RemoveBook int
  | EditBook int "string option" "int option" "string option"
  | RegisterUser string
  | EditUser int string
  | DeleteUser int
  | IssueBook datetime int int
  | ReturnBook datetime int
  | Restart

fun run_call :: "library_system \<Rightarrow> call \<Rightarrow> library_system" where
  "run_call s (AddBook title name bio year) = fst (add_book s title name bio year)"
| "run_call s (RemoveBook bid) = fst (remove_book s bid)"
| "run_call s (EditBook bid title year bio) = fst (edit_book s bid title year bio)"
| "run_call s (RegisterUser name) = fst (register_user s name)"
| "run_call s (EditUser uid name) = fst (edit_user s uid name)"
| "run_call s (DeleteUser uid) = fst (delete_user s uid)"
| "run_call s (IssueBook now uid bid) = fst (issue_book s now uid bid)"
| "run_call s (ReturnBook now lid) = fst (return_book s now lid)"
| "run_call s Restart = init (committed (conn s))"

text \<open>The book ids of the open loans of a store, one entry per open loan.\<close>

definition open_loan_books :: "database \<Rightarrow> int list" where
  "open_loan_books db = map lr_book_id (filter (\<lambda>r. lr_return_date r = None) (loans db))"

text \<open>
  A consistent store: no book has two open loans, no available book has an open loan,
  the book of every open loan exists, and the sequence counter of table \<open>books\<close> is not
  behind the ids in the table (SQLite keeps it so).
\<close>

definition consistent_store :: "database \<Rightarrow> bool" where
  "consistent_store db \<longleftrightarrow>
     distinct (open_loan_books db)
     \<and> list_all (\<lambda>r. br_status r = STATUS_AVAILABLE \<longrightarrow> br_id r \<notin> set (open_loan_books db)) (books db)
     \<and> list_all (\<lambda>b. b \<in> set (map br_id (books db))) (open_loan_books db)
     \<and> list_all (\<lambda>r. br_id r \<le> seq_books db) (books db)"

inductive reachable :: "library_system \<Rightarrow> bool" where
  start: "consistent_store db \<Longrightarrow> reachable (init db)"
| step: "reachable s \<Longrightarrow> reachable (run_call s c)"

text \<open>
  The invariant behind the single open loan per book. For a store: its open loans name
  distinct books, none of them an available one, and none beyond the sequence counter.
  For the engine against a store: the book that \<open>issue_book\<close> would pick for an id is
  not beyond the sequence counter and, if available, has no open loan in the store; and
  the loan that \<open>return_book\<close> would pick for an id, if open, is an open row of the
  store for the same book.
\<close>

definition store_ok :: "database \<Rightarrow> bool" where
  "store_ok db \<longleftrightarrow>
     distinct (open_loan_books db)
     \<and> (\<forall>r \<in> set (books db). br_status r = STATUS_AVAILABLE \<longrightarrow> br_id r \<notin> set (open_loan_books db))
     \<and> (\<forall>b \<in> set (open_loan_books db). b \<le> seq_books db)
     \<and> (\<forall>r \<in> set (books db). br_id r \<le> seq_books db)"

definition cache_books_ok :: "library_system \<Rightarrow> database \<Rightarrow> bool" where
  "cache_books_ok s db \<longleftrightarrow>
     (\<forall>bid ba b. find_book s bid = Some (ba, b) \<longrightarrow>
        bid \<le> seq_books db \<and> (is_available b \<longrightarrow> bid \<notin> set (open_loan_books db)))"

definition cache_loans_ok :: "library_system \<Rightarrow> database \<Rightarrow> bool" where
  "cache_loans_ok s db \<longleftrightarrow>
     (\<forall>lid la l. find_loan s lid = Some (la, l) \<longrightarrow> return_date l = None \<longrightarrow>
          (\<exists>r \<in> set (loans db). lr_id r = lid \<and> lr_return_date r = None
             \<and> lr_book_id r = book_id (the (book_heap s (loan_book l)))))"

definition cache_ok :: "library_system \<Rightarrow> database \<Rightarrow> bool" where
  "cache_ok s db \<longleftrightarrow> cache_books_ok s db \<and> cache_loans_ok s db"

text \<open>No reference in use points at or beyond the next free address, and the book of
  every loan object exists.\<close>

definition heap_ok :: "library_system \<Rightarrow> bool" where
  "heap_ok s \<longleftrightarrow>
     (\<forall>a b. book_heap s a = Some b \<longrightarrow> a < next_book s)
     \<and> (\<forall>a l. loan_heap s a = Some l \<longrightarrow> a < next_loan s \<and> book_heap s (loan_book l) \<noteq> None)
     \<and> (\<forall>a \<in> set (cache_books s). a < next_book s)
     \<and> (\<forall>a \<in> set (cache_loans s). a < next_loan s)"

definition lending_inv :: "library_system \<Rightarrow> bool" where
  "lending_inv s \<longleftrightarrow>
     heap_ok s
     \<and> store_ok (working (conn s)) \<and> cache_ok s (working (conn s))
     \<and> store_ok (committed (conn s)) \<and> cache_ok s (committed (conn s))"

section \<open>Stores and states used as examples\<close>

text \<open>
  A store with one author, five books, two users and one open loan (book 1, held by
  user 1); book 1 is on loan and the other four are available.
\<close>

definition example_db :: database where
  "example_db =
     \<lparr>authors = [\<lparr>author_id = 1, author_name = ''A'', author_bio = ''bio''\<rparr>],
      books = [\<lparr>br_id = 1, br_title = ''T1'', br_author_id = 1, br_year = 2001, br_status = STATUS_ON_LOAN\<rparr>,
               \<lparr>br_id = 2, br_title = ''T2'', br_author_id = 1, br_year = 2002, br_status = STATUS_AVAILABLE\<rparr>,
               \<lparr>br_id = 3, br_title = ''T3'', br_author_id = 1, br_year = 2003, br_status = STATUS_AVAILABLE\<rparr>,
               \<lparr>br_id = 4, br_title = ''T4'', br_author_id = 1, br_year = 2004, br_status = STATUS_AVAILABLE\<rparr>,
               \<lparr>br_id = 5, br_title = ''T5'', br_author_id = 1, br_year = 2005, br_status = STATUS_AVAILABLE\<rparr>],
      users = [\<lparr>ur_id = 1, ur_name = ''U1''\<rparr>, \<lparr>ur_id = 2, ur_name = ''U2''\<rparr>],
      loans = [\<lparr>lr_id = 1, lr_book_id = 1, lr_user_id = 1, lr_issue_date = 100, lr_return_date = None\<rparr>],
      seq_authors = 1, seq_books = 5, seq_users = 2, seq_loans = 1\<rparr>"

text \<open>The engine on that store, and after issuing books 2, 3 and 4 to user 2.\<close>

definition example_system :: library_system where
  "example_system = init example_db"

definition example_system3 :: library_system where
  "example_system3 =
     fst (issue_book (fst (issue_book (fst (issue_book example_system 200 2 2)) 300 2 3)) 400 2 4)"

section \<open>Basic facts about the store and the searches\<close>

lemma fold_max_ge: "(s::int) \<le> fold max xs s"
  by (induction xs arbitrary: s) (auto intro: order_trans [OF max.cobounded2])

lemma fold_max_mem: "x \<in> set xs \<Longrightarrow> (x::int) \<le> fold max xs s"
proof (induction xs arbitrary: s)
  case Nil
  then show ?case by simp
next
  case (Cons y ys)
  show ?case
  proof (cases "x = y")
    case True
    have "y \<le> max y s" by simp
    also have "\<dots> \<le> fold max ys (max y s)" by (rule fold_max_ge)
    finally show ?thesis using True by simp
  next
    case False
    with Cons show ?thesis by simp
  qed
qed

lemma next_rowid_fresh: "x \<in> set ids \<Longrightarrow> x < next_rowid ids seq"
  using fold_max_mem [of x ids seq] by (simp add: next_rowid_def)

lemma find_user_None:
  "find_user s uid = None \<longleftrightarrow> \<not> (\<exists>x \<in> set (get_users s). user_id (snd x) = uid)"
  by (force simp: find_user_def find_None_iff)

lemma find_book_None:
  "find_book s bid = None \<longleftrightarrow> \<not> (\<exists>x \<in> set (get_books s). book_id (snd x) = bid)"
  by (force simp: find_book_def find_None_iff)

lemma find_loan_None:
  "find_loan s lid = None \<longleftrightarrow> \<not> (\<exists>x \<in> set (get_loans s). loan_id (snd x) = lid)"
  by (force simp: find_loan_def find_None_iff)

lemma loans_update_book_status [simp]: "loans (update_book_status db bid st) = loans db"
  by (simp add: update_book_status_def)

lemma books_update_book_status:
  "books (update_book_status db bid st) =
     map (\<lambda>r. if br_id r = bid then r\<lparr>br_status := st\<rparr> else r) (books db)"
  by (simp add: update_book_status_def)

lemma books_insert_loan [simp]: "books (fst (insert_loan db bid uid t)) = books db"
  by (simp add: insert_loan_def Let_def)

lemma loans_insert_loan:
  "loans (fst (insert_loan db bid uid t)) =
     loans db @ [\<lparr>lr_id = snd (insert_loan db bid uid t), lr_book_id = bid, lr_user_id = uid,
                  lr_issue_date = t, lr_return_date = None\<rparr>]"
  by (simp add: insert_loan_def Let_def)

lemma insert_loan_fresh: "r \<in> set (loans db) \<Longrightarrow> lr_id r < snd (insert_loan db bid uid t)"
  by (simp add: insert_loan_def Let_def next_rowid_fresh)

text \<open>What a successful \<open>issue_book\<close> does, in one equation.\<close>

lemma issue_book_logged_success:
  assumes "find_user s uid = Some (ua, u)" "find_book s bid = Some (ba, b)" "is_available b"
    "length (borrowed_books u) < 3"
  shows "issue_book_logged s now uid bid =
    (s\<lparr>conn := \<lparr>committed = update_book_status (fst (insert_loan (working (conn s)) bid uid now)) bid STATUS_ON_LOAN,
                 working = update_book_status (fst (insert_loan (working (conn s)) bid uid now)) bid STATUS_ON_LOAN\<rparr>,
       loan_heap := (loan_heap s)(next_loan s \<mapsto>
          \<lparr>loan_id = snd (insert_loan (working (conn s)) bid uid now), loan_book = ba, loan_user = ua,
            issue_date = now, return_date = None\<rparr>),
       next_loan := Suc (next_loan s),
       book_heap := (book_heap s)(ba \<mapsto> b\<lparr>book_status := STATUS_ON_LOAN\<rparr>),
       user_heap := (user_heap s)(ua \<mapsto> u\<lparr>borrowed_books := borrowed_books u @ [ba]\<rparr>),
       cache_loans := cache_loans s @ [next_loan s]\<rparr>, Inr (next_loan s))"
  using assms
  by (simp add: issue_book_logged_def MAX_BOOKS_def Let_def new_loan_def borrow_book_def commit_def
      split: prod.splits)

lemma issue_book_logged_failure:
  "find_user s uid = None \<Longrightarrow> issue_book_logged s now uid bid = (s, Inl UserNotFound)"
  "find_user s uid = Some x \<Longrightarrow> find_book s bid = None \<Longrightarrow>
     issue_book_logged s now uid bid = (s, Inl BookNotFound)"
  "find_user s uid = Some x \<Longrightarrow> find_book s bid = Some (ba, b) \<Longrightarrow> \<not> is_available b \<Longrightarrow>
     issue_book_logged s now uid bid = (s, Inl BookUnavailable)"
  "find_user s uid = Some (ua, u) \<Longrightarrow> find_book s bid = Some (ba, b) \<Longrightarrow> is_available b \<Longrightarrow>
     \<not> length (borrowed_books u) < 3 \<Longrightarrow>
     issue_book_logged s now uid bid = (s, Inl LimitReached)"
  by (auto simp: issue_book_logged_def MAX_BOOKS_def split: prod.splits)

text \<open>Allocation and loading leave the connection alone.\<close>

lemma alloc_books_conn: "alloc_books bs s = (s', as) \<Longrightarrow> conn s' = conn s"
  by (induction bs arbitrary: s s' as) (auto simp: new_book_def split: prod.splits)

lemma alloc_users_conn: "alloc_users us s = (s', as) \<Longrightarrow> conn s' = conn s"
  by (induction us arbitrary: s s' as) (auto simp: new_user_def split: prod.splits)

lemma load_loan_rows_conn: "load_loan_rows rs s = (s', as) \<Longrightarrow> conn s' = conn s"
proof (induction rs arbitrary: s s' as)
  case Nil
  then show ?case by simp
next
  case (Cons r rs)
  then show ?case
    by (auto simp: new_book_def new_user_def new_loan_def split: option.splits prod.splits)
qed

lemma update_status_mem:
  assumes "r \<in> set (map (\<lambda>r. if br_id r = bid then r\<lparr>br_status := st\<rparr> else r) rs)"
    and "br_id r = bid"
  shows "br_status r = st"
proof -
  from assms(1) obtain x where x: "x \<in> set rs"
      "r = (if br_id x = bid then x\<lparr>br_status := st\<rparr> else x)"
    by (auto simp: image_iff)
  show ?thesis
  proof (cases "br_id x = bid")
    case True
    with x show ?thesis by simp
  next
    case False
    with x assms(2) show ?thesis by simp
  qed
qed

lemma books_update_book_status_mem:
  "r \<in> set (books (update_book_status db bid st)) \<Longrightarrow> br_id r = bid \<Longrightarrow> br_status r = st"
  unfolding books_update_book_status by (rule update_status_mem)

text \<open>Reading lists of references, and what \<open>return_book\<close> does.\<close>

lemma deref_Nil [simp]: "deref h [] = []"
  by (simp add: deref_def map_filter_simps)

lemma deref_Cons:
  "deref h (a # as) = (case h a of None \<Rightarrow> deref h as | Some x \<Rightarrow> (a, x) # deref h as)"
  by (simp add: deref_def map_filter_simps split: option.splits)

lemma deref_mem: "(a, x) \<in> set (deref h as) \<longleftrightarrow> a \<in> set as \<and> h a = Some x"
  by (induction as) (auto simp: deref_Cons split: option.splits)

lemma find_loan_deref_update:
  assumes "find (\<lambda>(a, l). loan_id l = lid) (deref h as) = Some (la, l)" and "loan_id l' = lid"
  shows "find (\<lambda>(a, l). loan_id l = lid) (deref (h(la \<mapsto> l')) as) = Some (la, l')"
  using assms
proof (induction as)
  case Nil
  then show ?case by simp
next
  case (Cons a as)
  show ?case
  proof (cases "a = la")
    case True
    then show ?thesis using Cons.prems(2) by (simp add: deref_Cons)
  next
    case False
    then show ?thesis using Cons
      by (auto simp: deref_Cons split: option.splits if_splits)
  qed
qed

lemma find_distinct_key:
  assumes "x \<in> set xs" and "distinct (map f xs)"
  shows "find (\<lambda>y. f y = f x) xs = Some x"
  using assms by (induction xs) (auto simp: image_iff)

lemma return_book_success:
  assumes "find_loan s lid = Some (la, l)" and "return_date l = None"
  shows "return_book s now lid =
    (s\<lparr>conn := \<lparr>committed = update_book_status (update_loan_return_date (working (conn s)) lid now)
                               (book_id (the (book_heap s (loan_book l)))) STATUS_AVAILABLE,
                 working = update_book_status (update_loan_return_date (working (conn s)) lid now)
                               (book_id (the (book_heap s (loan_book l)))) STATUS_AVAILABLE\<rparr>,
       loan_heap := (loan_heap s)(la \<mapsto> l\<lparr>return_date := Some now\<rparr>),
       book_heap := (book_heap s)(loan_book l \<mapsto>
                       (the (book_heap s (loan_book l)))\<lparr>book_status := STATUS_AVAILABLE\<rparr>),
       user_heap := (user_heap s)(loan_user l \<mapsto>
                       fst (user_return_book (the (user_heap s (loan_user l))) (loan_book l)))\<rparr>, True)"
  using assms by (simp add: return_book_def Let_def commit_def)

lemma return_book_failure:
  "find_loan s lid = None \<Longrightarrow> return_book s now lid = (s, False)"
  "find_loan s lid = Some (la, l) \<Longrightarrow> return_date l \<noteq> None \<Longrightarrow> return_book s now lid = (s, False)"
  by (auto simp: return_book_def)

lemma reload_books_conn [simp]: "conn (reload_books s) = conn s"
  by (auto simp: reload_books_def load_books_def alloc_books_conn split: prod.splits)

lemma reload_users_conn [simp]: "conn (reload_users s) = conn s"
  by (auto simp: reload_users_def load_users_def alloc_users_conn split: prod.splits)

lemma reload_loans_conn [simp]: "conn (reload_loans s) = conn s"
  by (auto simp: reload_loans_def load_loans_def load_loan_rows_conn split: prod.splits)

lemma reload_authors_conn [simp]: "conn (reload_authors s) = conn s"
  by (simp add: reload_authors_def)



section \<open>Overdue detection\<close>

text \<open>
  Claim C8. For valid clock readings and issue dates, \<open>is_overdue\<close> returns true exactly
  when the loan is open and the current time strictly exceeds the issue date plus 14
  days. A closed loan reports false whatever its age; an open loan issued 14 days and one
  second ago reports true, and one issued 14 days minus one second ago reports false.
\<close>

theorem is_overdue_boundary:
  assumes "valid_datetime now" and "valid_datetime (issue_date l)"
  shows "((is_overdue l now = Inr True) \<longleftrightarrow> (return_date l = None \<and> now > issue_date l + days 14))
    \<and> (valid_datetime (issue_date l + days 14) \<longrightarrow>
          is_overdue l now = Inr (return_date l = None \<and> now > issue_date l + days 14))
    \<and> (return_date l \<noteq> None \<longrightarrow> is_overdue l now = Inr False)
    \<and> (return_date l = None \<and> issue_date l = now - (days 14 + seconds 1) \<longrightarrow>
          is_overdue l now = Inr True)
    \<and> (return_date l = None \<and> issue_date l = now - (days 14 - seconds 1) \<and>
          valid_datetime (now + seconds 1) \<longrightarrow> is_overdue l now = Inr False)"
  using assms
  by (auto simp: is_overdue_def datetime_add_def LOAN_DAYS_def valid_datetime_def days_def
        seconds_def DATETIME_MAX_def split: option.splits)

theorem is_overdue_boundary_witness:
  "is_overdue \<lparr>loan_id = 1, loan_book = 0, loan_user = 0,
       issue_date = days 100 - (days 14 + seconds 1), return_date = None\<rparr> (days 100) = Inr True
   \<and> is_overdue \<lparr>loan_id = 1, loan_book = 0, loan_user = 0,
       issue_date = days 100 - (days 14 - seconds 1), return_date = None\<rparr> (days 100) = Inr False
   \<and> is_overdue \<lparr>loan_id = 1, loan_book = 0, loan_user = 0,
       issue_date = 0, return_date = Some (days 1)\<rparr> (days 100) = Inr False"
proof -
  have v: "valid_datetime (days 100)" "valid_datetime (days 100 - (days 14 + seconds 1))"
    "valid_datetime (days 100 - (days 14 - seconds 1))" "valid_datetime 0"
    "valid_datetime (days 100 + seconds 1)"
    by (simp_all add: valid_datetime_def days_def seconds_def DATETIME_MAX_def)
  show ?thesis
    using is_overdue_boundary [of "days 100" "\<lparr>loan_id = 1, loan_book = 0, loan_user = 0,
            issue_date = days 100 - (days 14 + seconds 1), return_date = None\<rparr>"]
          is_overdue_boundary [of "days 100" "\<lparr>loan_id = 1, loan_book = 0, loan_user = 0,
            issue_date = days 100 - (days 14 - seconds 1), return_date = None\<rparr>"]
          is_overdue_boundary [of "days 100" "\<lparr>loan_id = 1, loan_book = 0, loan_user = 0,
            issue_date = 0, return_date = Some (days 1)\<rparr>"]
          v
    by (simp add: seconds_def days_def)
qed

section \<open>Removing a book\<close>

text \<open>
  Claim C10. For every book id that SQLite can hold (a signed 64-bit integer),
  \<open>remove_book\<close> returns \<open>True\<close>, whether or not a stored book has that id: it deletes
  the rows with that id and commits. For an id that matches no stored book the table of
  books is left as it was, and the call still reports success.
\<close>

theorem remove_book_reports_success:
  assumes "sqlite_int bid"
  shows "snd (remove_book s bid) = Inr True
   \<and> books (committed (conn (fst (remove_book s bid))))
        = filter (\<lambda>r. br_id r \<noteq> bid) (books (working (conn s)))
   \<and> (bid \<notin> set (map br_id (books (working (conn s)))) \<longrightarrow>
        books (committed (conn (fst (remove_book s bid)))) = books (working (conn s)))"
proof -
  have "bid \<notin> set (map br_id rs) \<Longrightarrow> filter (\<lambda>r. br_id r \<noteq> bid) rs = rs" for rs :: "book_row list"
    by (induction rs) auto
  then show ?thesis
    using assms
    by (auto simp: remove_book_def reload_books_def load_books_def commit_def delete_book_def
          alloc_books_conn split: prod.splits)
qed

theorem remove_book_reports_success_witness:
  "sqlite_int 99 \<and> snd (remove_book example_system 99) = Inr True
   \<and> books (committed (conn (fst (remove_book example_system 99)))) = books (working (conn example_system))
   \<and> sqlite_int 5 \<and> snd (remove_book example_system 5) = Inr True
   \<and> map br_id (books (committed (conn (fst (remove_book example_system 5))))) = [1, 2, 3, 4]"
proof -
  have r99: "sqlite_int 99" and r5: "sqlite_int 5"
    by (simp_all add: sqlite_int_def)
  have n: "(99::int) \<notin> set (map br_id (books (working (conn example_system))))"
    by code_simp
  have f: "map br_id (filter (\<lambda>r. br_id r \<noteq> 5) (books (working (conn example_system)))) = [1, 2, 3, 4]"
    by code_simp
  note t99 = remove_book_reports_success [OF r99, of example_system]
  note t5 = remove_book_reports_success [OF r5, of example_system]
  from t99 have a1: "snd (remove_book example_system 99) = Inr True"
    by (rule conjunct1)
  from t99 n have a2: "books (committed (conn (fst (remove_book example_system 99))))
      = books (working (conn example_system))"
    by blast
  from t5 have b1: "snd (remove_book example_system 5) = Inr True"
    by (rule conjunct1)
  from t5 have "books (committed (conn (fst (remove_book example_system 5))))
      = filter (\<lambda>r. br_id r \<noteq> 5) (books (working (conn example_system)))"
    by blast
  with f have b2: "map br_id (books (committed (conn (fst (remove_book example_system 5))))) = [1, 2, 3, 4]"
    by simp
  from r99 a1 a2 r5 b1 b2 show ?thesis
    by blast
qed

section \<open>Issuing a book\<close>

text \<open>
  Claim C1. \<open>issue_book\<close> checks, in this order and with the first failure deciding the
  logged reason: that a user with the id is in the user list, that a book with the id is in
  the book list, that the book is available, and that the user holds fewer than 3 books.
  On every failure it returns \<open>None\<close> and changes nothing. Otherwise it returns a new
  loan issued now, the book is on loan (in the object and in the store), the book is
  appended to the user's held books and the loan to the list of loans.
\<close>

theorem issue_book_preconditions:
  "(\<not> (\<exists>x \<in> set (get_users s). user_id (snd x) = uid) \<longrightarrow>
      issue_book_logged s now uid bid = (s, Inl UserNotFound) \<and> issue_book s now uid bid = (s, None))
 \<and> ((\<exists>x \<in> set (get_users s). user_id (snd x) = uid) \<and>
      \<not> (\<exists>x \<in> set (get_books s). book_id (snd x) = bid) \<longrightarrow>
      issue_book_logged s now uid bid = (s, Inl BookNotFound) \<and> issue_book s now uid bid = (s, None))
 \<and> ((\<exists>x \<in> set (get_users s). user_id (snd x) = uid) \<and>
      find_book s bid = Some (ba, b) \<and> \<not> is_available b \<longrightarrow>
      issue_book_logged s now uid bid = (s, Inl BookUnavailable) \<and> issue_book s now uid bid = (s, None))
 \<and> (find_user s uid = Some (ua, u) \<and> find_book s bid = Some (ba, b) \<and> is_available b \<and>
      \<not> length (borrowed_books u) < 3 \<longrightarrow>
      issue_book_logged s now uid bid = (s, Inl LimitReached) \<and> issue_book s now uid bid = (s, None))
 \<and> (find_user s uid = Some (ua, u) \<and> find_book s bid = Some (ba, b) \<and> is_available b \<and>
      length (borrowed_books u) < 3 \<longrightarrow>
      (\<exists>s' lid. issue_book s now uid bid = (s', Some (next_loan s))
         \<and> loan_heap s' (next_loan s) =
              Some \<lparr>loan_id = lid, loan_book = ba, loan_user = ua, issue_date = now, return_date = None\<rparr>
         \<and> book_heap s' ba = Some (b\<lparr>book_status := STATUS_ON_LOAN\<rparr>)
         \<and> user_heap s' ua = Some (u\<lparr>borrowed_books := borrowed_books u @ [ba]\<rparr>)
         \<and> cache_loans s' = cache_loans s @ [next_loan s]
         \<and> loans (committed (conn s')) = loans (working (conn s)) @
              [\<lparr>lr_id = lid, lr_book_id = bid, lr_user_id = uid, lr_issue_date = now, lr_return_date = None\<rparr>]
         \<and> (\<forall>r \<in> set (books (committed (conn s'))). br_id r = bid \<longrightarrow> br_status r = STATUS_ON_LOAN)))"
proof (intro conjI impI)
  assume "\<not> (\<exists>x \<in> set (get_users s). user_id (snd x) = uid)"
  then have "find_user s uid = None"
    by (simp add: find_user_None)
  then show "issue_book_logged s now uid bid = (s, Inl UserNotFound)"
    by (rule issue_book_logged_failure)
  then show "issue_book s now uid bid = (s, None)"
    by (simp add: issue_book_def)
next
  assume "(\<exists>x \<in> set (get_users s). user_id (snd x) = uid) \<and>
      \<not> (\<exists>x \<in> set (get_books s). book_id (snd x) = bid)"
  then obtain x where "find_user s uid = Some x" "find_book s bid = None"
    using find_user_None [of s uid] find_book_None [of s bid] by auto
  then show "issue_book_logged s now uid bid = (s, Inl BookNotFound)"
    by (rule issue_book_logged_failure)
  then show "issue_book s now uid bid = (s, None)"
    by (simp add: issue_book_def)
next
  assume "(\<exists>x \<in> set (get_users s). user_id (snd x) = uid) \<and>
      find_book s bid = Some (ba, b) \<and> \<not> is_available b"
  then obtain x where "find_user s uid = Some x" "find_book s bid = Some (ba, b)" "\<not> is_available b"
    using find_user_None [of s uid] by auto
  then show "issue_book_logged s now uid bid = (s, Inl BookUnavailable)"
    by (rule issue_book_logged_failure)
  then show "issue_book s now uid bid = (s, None)"
    by (simp add: issue_book_def)
next
  assume "find_user s uid = Some (ua, u) \<and> find_book s bid = Some (ba, b) \<and> is_available b \<and>
      \<not> length (borrowed_books u) < 3"
  then show "issue_book_logged s now uid bid = (s, Inl LimitReached)"
    by (intro issue_book_logged_failure(4) [of s uid ua u bid ba b]) simp_all
  then show "issue_book s now uid bid = (s, None)"
    by (simp add: issue_book_def)
next
  assume a: "find_user s uid = Some (ua, u) \<and> find_book s bid = Some (ba, b) \<and> is_available b \<and>
      length (borrowed_books u) < 3"
  let ?lid = "snd (insert_loan (working (conn s)) bid uid now)"
  let ?db = "update_book_status (fst (insert_loan (working (conn s)) bid uid now)) bid STATUS_ON_LOAN"
  let ?s' = "s\<lparr>conn := \<lparr>committed = ?db, working = ?db\<rparr>,
       loan_heap := (loan_heap s)(next_loan s \<mapsto>
          \<lparr>loan_id = ?lid, loan_book = ba, loan_user = ua, issue_date = now, return_date = None\<rparr>),
       next_loan := Suc (next_loan s),
       book_heap := (book_heap s)(ba \<mapsto> b\<lparr>book_status := STATUS_ON_LOAN\<rparr>),
       user_heap := (user_heap s)(ua \<mapsto> u\<lparr>borrowed_books := borrowed_books u @ [ba]\<rparr>),
       cache_loans := cache_loans s @ [next_loan s]\<rparr>"
  from a have eq: "issue_book_logged s now uid bid = (?s', Inr (next_loan s))"
    by (intro issue_book_logged_success) simp_all
  then have 1: "issue_book s now uid bid = (?s', Some (next_loan s))"
    by (simp add: issue_book_def)
  have 2: "loans (committed (conn ?s')) = loans (working (conn s)) @
              [\<lparr>lr_id = ?lid, lr_book_id = bid, lr_user_id = uid, lr_issue_date = now, lr_return_date = None\<rparr>]"
    by (simp add: loans_insert_loan)
  have "committed (conn ?s') = ?db"
    by simp
  then have 3: "\<forall>r \<in> set (books (committed (conn ?s'))). br_id r = bid \<longrightarrow> br_status r = STATUS_ON_LOAN"
    using books_update_book_status_mem by metis
  show "\<exists>s' lid. issue_book s now uid bid = (s', Some (next_loan s))
         \<and> loan_heap s' (next_loan s) =
              Some \<lparr>loan_id = lid, loan_book = ba, loan_user = ua, issue_date = now, return_date = None\<rparr>
         \<and> book_heap s' ba = Some (b\<lparr>book_status := STATUS_ON_LOAN\<rparr>)
         \<and> user_heap s' ua = Some (u\<lparr>borrowed_books := borrowed_books u @ [ba]\<rparr>)
         \<and> cache_loans s' = cache_loans s @ [next_loan s]
         \<and> loans (committed (conn s')) = loans (working (conn s)) @
              [\<lparr>lr_id = lid, lr_book_id = bid, lr_user_id = uid, lr_issue_date = now, lr_return_date = None\<rparr>]
         \<and> (\<forall>r \<in> set (books (committed (conn s'))). br_id r = bid \<longrightarrow> br_status r = STATUS_ON_LOAN)"
    apply (rule exI [where x = ?s'])
    apply (rule exI [where x = ?lid])
    apply (intro conjI)
          apply (rule 1)
         apply simp
        apply simp
       apply simp
      apply simp
     apply (rule 2)
    apply (rule 3)
    done
qed

theorem issue_book_preconditions_witness:
  "issue_book_logged example_system 500 7 2 = (example_system, Inl UserNotFound)
   \<and> issue_book example_system 500 7 2 = (example_system, None)
   \<and> issue_book_logged example_system 500 1 99 = (example_system, Inl BookNotFound)
   \<and> issue_book example_system 500 1 99 = (example_system, None)
   \<and> issue_book_logged example_system 500 1 1 = (example_system, Inl BookUnavailable)
   \<and> issue_book example_system 500 1 1 = (example_system, None)
   \<and> issue_book_logged example_system3 500 2 5 = (example_system3, Inl LimitReached)
   \<and> issue_book example_system3 500 2 5 = (example_system3, None)
   \<and> (\<exists>s' lid. issue_book example_system 500 1 2 = (s', Some (next_loan example_system))
         \<and> loan_heap s' (next_loan example_system) =
              Some \<lparr>loan_id = lid, loan_book = 1, loan_user = 0, issue_date = 500, return_date = None\<rparr>
         \<and> map_option book_status (book_heap s' 1) = Some STATUS_ON_LOAN
         \<and> map_option borrowed_books (user_heap s' 0) = Some [1]
         \<and> cache_loans s' = cache_loans example_system @ [next_loan example_system])"
proof -
  have u7: "\<not> (\<exists>x \<in> set (get_users example_system). user_id (snd x) = 7)"
    by code_simp
  have u1: "\<exists>x \<in> set (get_users example_system). user_id (snd x) = 1"
    by code_simp
  have b99: "\<not> (\<exists>x \<in> set (get_books example_system). book_id (snd x) = 99)"
    by code_simp
  have b1: "find_book example_system 1 = Some (0, \<lparr>book_id = 1, book_title = ''T1'',
        book_author = \<lparr>author_id = 1, author_name = ''A'', author_bio = ''bio''\<rparr>, book_year = 2001,
        book_status = STATUS_ON_LOAN\<rparr>)"
    by code_simp
  have b2: "find_book example_system 2 = Some (1, \<lparr>book_id = 2, book_title = ''T2'',
        book_author = \<lparr>author_id = 1, author_name = ''A'', author_bio = ''bio''\<rparr>, book_year = 2002,
        book_status = STATUS_AVAILABLE\<rparr>)"
    by code_simp
  have fu1: "find_user example_system 1 = Some (0, \<lparr>user_name = ''U1'', user_id = 1, borrowed_books = []\<rparr>)"
    by code_simp
  have fu2: "find_user example_system3 2 = Some (1, \<lparr>user_name = ''U2'', user_id = 2, borrowed_books = [1, 2, 3]\<rparr>)"
    by code_simp
  have b5: "find_book example_system3 5 = Some (4, \<lparr>book_id = 5, book_title = ''T5'',
        book_author = \<lparr>author_id = 1, author_name = ''A'', author_bio = ''bio''\<rparr>, book_year = 2005,
        book_status = STATUS_AVAILABLE\<rparr>)"
    by code_simp
  have av: "STATUS_ON_LOAN \<noteq> STATUS_AVAILABLE"
    by (simp add: STATUS_ON_LOAN_def STATUS_AVAILABLE_def)
  let ?b1 = "\<lparr>book_id = 1, book_title = ''T1'',
        book_author = \<lparr>author_id = 1, author_name = ''A'', author_bio = ''bio''\<rparr>, book_year = 2001,
        book_status = STATUS_ON_LOAN\<rparr>"
  let ?b2 = "\<lparr>book_id = 2, book_title = ''T2'',
        book_author = \<lparr>author_id = 1, author_name = ''A'', author_bio = ''bio''\<rparr>, book_year = 2002,
        book_status = STATUS_AVAILABLE\<rparr>"
  let ?b5 = "\<lparr>book_id = 5, book_title = ''T5'',
        book_author = \<lparr>author_id = 1, author_name = ''A'', author_bio = ''bio''\<rparr>, book_year = 2005,
        book_status = STATUS_AVAILABLE\<rparr>"
  let ?u1 = "\<lparr>user_name = ''U1'', user_id = 1, borrowed_books = []\<rparr>"
  let ?u2 = "\<lparr>user_name = ''U2'', user_id = 2, borrowed_books = [1, 2, 3]\<rparr>"
  have c1: "issue_book_logged example_system 500 7 2 = (example_system, Inl UserNotFound)
      \<and> issue_book example_system 500 7 2 = (example_system, None)"
    using issue_book_preconditions [where s = example_system and uid = 7 and now = 500 and bid = 2] u7
    by blast
  have c2: "issue_book_logged example_system 500 1 99 = (example_system, Inl BookNotFound)
      \<and> issue_book example_system 500 1 99 = (example_system, None)"
    using issue_book_preconditions [where s = example_system and uid = 1 and now = 500 and bid = 99] u1 b99
    by blast
  have c3: "issue_book_logged example_system 500 1 1 = (example_system, Inl BookUnavailable)
      \<and> issue_book example_system 500 1 1 = (example_system, None)"
    using issue_book_preconditions [where s = example_system and uid = 1 and now = 500 and bid = 1
        and ba = 0 and b = ?b1] u1 b1 av
    by (simp add: is_available_def)
  have c4: "issue_book_logged example_system3 500 2 5 = (example_system3, Inl LimitReached)
      \<and> issue_book example_system3 500 2 5 = (example_system3, None)"
    using issue_book_preconditions [where s = example_system3 and uid = 2 and now = 500 and bid = 5
        and ba = 4 and b = ?b5 and ua = 1 and u = ?u2] fu2 b5
    by (simp add: is_available_def)
  have c5: "\<exists>s' lid. issue_book example_system 500 1 2 = (s', Some (next_loan example_system))
         \<and> loan_heap s' (next_loan example_system) =
              Some \<lparr>loan_id = lid, loan_book = 1, loan_user = 0, issue_date = 500, return_date = None\<rparr>
         \<and> book_heap s' 1 = Some (?b2\<lparr>book_status := STATUS_ON_LOAN\<rparr>)
         \<and> user_heap s' 0 = Some (?u1\<lparr>borrowed_books := borrowed_books ?u1 @ [1]\<rparr>)
         \<and> cache_loans s' = cache_loans example_system @ [next_loan example_system]"
    using issue_book_preconditions [where s = example_system and uid = 1 and now = 500 and bid = 2
        and ba = 1 and b = ?b2 and ua = 0 and u = ?u1] fu1 b2
    by (simp add: is_available_def) blast
  from c5 obtain s' lid where s': "issue_book example_system 500 1 2 = (s', Some (next_loan example_system))"
     "loan_heap s' (next_loan example_system) =
              Some \<lparr>loan_id = lid, loan_book = 1, loan_user = 0, issue_date = 500, return_date = None\<rparr>"
     "book_heap s' 1 = Some (?b2\<lparr>book_status := STATUS_ON_LOAN\<rparr>)"
     "user_heap s' 0 = Some (?u1\<lparr>borrowed_books := borrowed_books ?u1 @ [1]\<rparr>)"
     "cache_loans s' = cache_loans example_system @ [next_loan example_system]"
    by blast
  have c6: "\<exists>s' lid. issue_book example_system 500 1 2 = (s', Some (next_loan example_system))
         \<and> loan_heap s' (next_loan example_system) =
              Some \<lparr>loan_id = lid, loan_book = 1, loan_user = 0, issue_date = 500, return_date = None\<rparr>
         \<and> map_option book_status (book_heap s' 1) = Some STATUS_ON_LOAN
         \<and> map_option borrowed_books (user_heap s' 0) = Some [1]
         \<and> cache_loans s' = cache_loans example_system @ [next_loan example_system]"
    using s'
    apply -
    apply (rule exI [where x = s'])
    apply (rule exI [where x = lid])
    apply simp
    done
  show ?thesis
    using c1 c2 c3 c4 c6 by blast
qed

section \<open>Returning a book\<close>

text \<open>
  Claim C7. \<open>return_book\<close> on an id that resolves to no loan, or to a closed one, returns
  \<open>False\<close> and changes nothing. On an open loan it returns \<open>True\<close>; a second call with
  the same id then returns \<open>False\<close> and changes nothing more. After the one successful
  return the loan is closed and its book is available, in the loan's book object and in the
  stored row. Where the loan ids in the list are distinct, every loan in it is the one its
  id resolves to.
\<close>

theorem return_book_twice:
  "(find_loan s lid = None \<longrightarrow> return_book s t1 lid = (s, False))
 \<and> (find_loan s lid = Some (la, l) \<and> return_date l \<noteq> None \<longrightarrow> return_book s t1 lid = (s, False))
 \<and> ((la, l) \<in> set (get_loans s) \<and> distinct (map (\<lambda>x. loan_id (snd x)) (get_loans s)) \<longrightarrow>
        find_loan s (loan_id l) = Some (la, l))
 \<and> (find_loan s lid = Some (la, l) \<and> return_date l = None \<and> book_heap s (loan_book l) = Some b \<longrightarrow>
      (\<exists>s1. return_book s t1 lid = (s1, True)
         \<and> return_book s1 t2 lid = (s1, False)
         \<and> loan_heap s1 la = Some (l\<lparr>return_date := Some t1\<rparr>)
         \<and> book_heap s1 (loan_book l) = Some (b\<lparr>book_status := STATUS_AVAILABLE\<rparr>)
         \<and> (\<forall>r \<in> set (books (committed (conn s1))). br_id r = book_id b \<longrightarrow> br_status r = STATUS_AVAILABLE)))"
proof (intro conjI impI)
  assume "find_loan s lid = None"
  then show "return_book s t1 lid = (s, False)"
    by (rule return_book_failure)
next
  assume "find_loan s lid = Some (la, l) \<and> return_date l \<noteq> None"
  then show "return_book s t1 lid = (s, False)"
    by (simp add: return_book_failure(2) [of s lid la l])
next
  assume a: "(la, l) \<in> set (get_loans s) \<and> distinct (map (\<lambda>x. loan_id (snd x)) (get_loans s))"
  then have "find (\<lambda>y. loan_id (snd y) = loan_id (snd (la, l))) (get_loans s) = Some (la, l)"
    by (intro find_distinct_key) simp_all
  moreover have "find_loan s (loan_id l) = find (\<lambda>y. loan_id (snd y) = loan_id l) (get_loans s)"
    unfolding find_loan_def by (rule find_cong) auto
  ultimately show "find_loan s (loan_id l) = Some (la, l)"
    by simp
next
  assume a: "find_loan s lid = Some (la, l) \<and> return_date l = None \<and> book_heap s (loan_book l) = Some b"
  let ?db = "update_book_status (update_loan_return_date (working (conn s)) lid t1) (book_id b) STATUS_AVAILABLE"
  let ?s1 = "s\<lparr>conn := \<lparr>committed = ?db, working = ?db\<rparr>,
       loan_heap := (loan_heap s)(la \<mapsto> l\<lparr>return_date := Some t1\<rparr>),
       book_heap := (book_heap s)(loan_book l \<mapsto> b\<lparr>book_status := STATUS_AVAILABLE\<rparr>),
       user_heap := (user_heap s)(loan_user l \<mapsto>
                       fst (user_return_book (the (user_heap s (loan_user l))) (loan_book l)))\<rparr>"
  from a have 1: "return_book s t1 lid = (?s1, True)"
    using return_book_success [of s lid la l t1] by simp
  from a have "find (\<lambda>(a, l). loan_id l = lid) (deref (loan_heap s) (cache_loans s)) = Some (la, l)"
    by (simp add: find_loan_def get_loans_def)
  moreover from this have "loan_id l = lid"
    by (auto dest: find_Some_iff [THEN iffD1])
  ultimately have "find (\<lambda>(a, l). loan_id l = lid)
      (deref ((loan_heap s)(la \<mapsto> l\<lparr>return_date := Some t1\<rparr>)) (cache_loans s))
        = Some (la, l\<lparr>return_date := Some t1\<rparr>)"
    by (intro find_loan_deref_update) simp_all
  then have "find_loan ?s1 lid = Some (la, l\<lparr>return_date := Some t1\<rparr>)"
    by (simp add: find_loan_def get_loans_def)
  moreover have "return_date (l\<lparr>return_date := Some t1\<rparr>) \<noteq> None"
    by simp
  ultimately have 2: "return_book ?s1 t2 lid = (?s1, False)"
    by (rule return_book_failure(2))
  have "committed (conn ?s1) = ?db"
    by simp
  then have 3: "\<forall>r \<in> set (books (committed (conn ?s1))). br_id r = book_id b \<longrightarrow> br_status r = STATUS_AVAILABLE"
    using books_update_book_status_mem by metis
  show "\<exists>s1. return_book s t1 lid = (s1, True)
         \<and> return_book s1 t2 lid = (s1, False)
         \<and> loan_heap s1 la = Some (l\<lparr>return_date := Some t1\<rparr>)
         \<and> book_heap s1 (loan_book l) = Some (b\<lparr>book_status := STATUS_AVAILABLE\<rparr>)
         \<and> (\<forall>r \<in> set (books (committed (conn s1))). br_id r = book_id b \<longrightarrow> br_status r = STATUS_AVAILABLE)"
    apply (rule exI [where x = ?s1])
    apply (intro conjI)
        apply (rule 1)
       apply (rule 2)
      apply simp
     apply simp
    apply (rule 3)
    done
qed

theorem return_book_twice_witness:
  "return_book example_system 600 42 = (example_system, False)
   \<and> find_loan example_system 1 =
        Some (0, \<lparr>loan_id = 1, loan_book = 5, loan_user = 2, issue_date = 100, return_date = None\<rparr>)
   \<and> (\<exists>s1. return_book example_system 600 1 = (s1, True)
         \<and> return_book s1 700 1 = (s1, False)
         \<and> return_book s1 800 1 = (s1, False)
         \<and> map_option book_status (book_heap s1 5) = Some STATUS_AVAILABLE)"
proof -
  let ?l = "\<lparr>loan_id = 1, loan_book = 5, loan_user = 2, issue_date = 100, return_date = None\<rparr>"
  let ?b = "\<lparr>book_id = 1, book_title = ''T1'',
        book_author = \<lparr>author_id = 1, author_name = ''A'', author_bio = ''bio''\<rparr>, book_year = 2001,
        book_status = STATUS_ON_LOAN\<rparr>"
  have f42: "find_loan example_system 42 = None"
    by code_simp
  have mem: "(0, ?l) \<in> set (get_loans example_system)"
    by code_simp
  have dist: "distinct (map (\<lambda>x. loan_id (snd x)) (get_loans example_system))"
    by code_simp
  have bh: "book_heap example_system (loan_book ?l) = Some ?b"
    by code_simp
  have c1: "return_book example_system 600 42 = (example_system, False)"
    using return_book_twice [where s = example_system and lid = 42 and ?t1.0 = 600] f42 by blast
  have c2: "find_loan example_system 1 = Some (0, ?l)"
    using return_book_twice [where s = example_system and la = 0 and l = ?l] mem dist by simp
  obtain s1 where s1: "return_book example_system 600 1 = (s1, True)"
      "return_book s1 700 1 = (s1, False)"
      "loan_heap s1 0 = Some (?l\<lparr>return_date := Some 600\<rparr>)"
      "book_heap s1 (loan_book ?l) = Some (?b\<lparr>book_status := STATUS_AVAILABLE\<rparr>)"
    using return_book_twice [where s = example_system and lid = 1 and la = 0 and l = ?l and b = ?b
        and ?t1.0 = 600 and ?t2.0 = 700] c2 bh
    by auto
  have "s1 = fst (return_book example_system 600 1)"
    using s1(1) by simp
  moreover have "find_loan (fst (return_book example_system 600 1)) 1 = Some (0, ?l\<lparr>return_date := Some 600\<rparr>)"
    by code_simp
  ultimately have "find_loan s1 1 = Some (0, ?l\<lparr>return_date := Some 600\<rparr>)"
    by simp
  then have c3: "return_book s1 800 1 = (s1, False)"
    using return_book_twice [where s = s1 and lid = 1 and la = 0 and l = "?l\<lparr>return_date := Some 600\<rparr>"
        and ?t1.0 = 800]
    by simp
  have "\<exists>s1. return_book example_system 600 1 = (s1, True)
         \<and> return_book s1 700 1 = (s1, False)
         \<and> return_book s1 800 1 = (s1, False)
         \<and> map_option book_status (book_heap s1 5) = Some STATUS_AVAILABLE"
    using s1 c3
    apply -
    apply (rule exI [where x = s1])
    apply simp
    done
  with c1 c2 show ?thesis
    by blast
qed

section \<open>Where the engine departs from its contract\<close>

text \<open>
  Claim C6. \<open>edit_book\<close> with a new title and year 0 raises \<open>ValueError\<close> to the
  caller, and nothing is committed by that call. The title update is not rolled back,
  though: it stays pending on the connection, where later reads see it, and the next
  commit of any operation (here \<open>register_user\<close>) makes it durable.
\<close>

theorem edit_book_bad_year_leaves_title_pending:
  "snd (edit_book example_system 2 (Some ''X'') (Some 0) None) = Inl ValueError
   \<and> committed (conn (fst (edit_book example_system 2 (Some ''X'') (Some 0) None)))
        = committed (conn example_system)
   \<and> map br_title (books (working (conn (fst (edit_book example_system 2 (Some ''X'') (Some 0) None)))))
        = [''T1'', ''X'', ''T3'', ''T4'', ''T5'']
   \<and> map br_title (books (committed (conn (fst (register_user
          (fst (edit_book example_system 2 (Some ''X'') (Some 0) None)) ''V'')))))
        = [''T1'', ''X'', ''T3'', ''T4'', ''T5'']"
  by code_simp

text \<open>
  Claim C5. The engine is built on a store in which book 1 is on loan. \<open>return_book\<close>
  succeeds and the stored row becomes available, but the book in the engine's list of
  books keeps the on-loan status, so the list differs from the store and \<open>issue_book\<close>
  refuses the book. The same happens within one session when the list of books was
  reloaded (here by \<open>add_book\<close>) between the issue and the return.
\<close>

theorem return_book_leaves_cached_book_on_loan:
  "snd (return_book example_system 600 1) = True
   \<and> map br_status (filter (\<lambda>r. br_id r = 1) (books (committed (conn (fst (return_book example_system 600 1))))))
        = [STATUS_AVAILABLE]
   \<and> map_option (\<lambda>x. book_status (snd x)) (find_book (fst (return_book example_system 600 1)) 1)
        = Some STATUS_ON_LOAN
   \<and> snd (issue_book_logged (fst (return_book example_system 600 1)) 700 1 1) = Inl BookUnavailable
   \<and> snd (return_book (fst (add_book (fst (issue_book example_system 200 1 2)) ''N'' ''A'' ''x'' 1999)) 300 2)
        = True
   \<and> map br_status (filter (\<lambda>r. br_id r = 2) (books (committed (conn (fst (return_book
          (fst (add_book (fst (issue_book example_system 200 1 2)) ''N'' ''A'' ''x'' 1999)) 300 2))))))
        = [STATUS_AVAILABLE]
   \<and> map_option (\<lambda>x. book_status (snd x)) (find_book (fst (return_book
          (fst (add_book (fst (issue_book example_system 200 1 2)) ''N'' ''A'' ''x'' 1999)) 300 2)) 2)
        = Some STATUS_ON_LOAN"
  by code_simp

text \<open>
  Claim C3. User 2 holds three books and a fourth issue is refused. After the engine is
  built again on the same store the same request succeeds, and the store then has four
  open loans of user 2.
\<close>

theorem reload_forgets_held_books:
  "snd (issue_book_logged example_system3 500 2 5) = Inl LimitReached
   \<and> snd (issue_book_logged (init (committed (conn example_system3))) 500 2 5) = Inr 4
   \<and> length (filter (\<lambda>r. lr_user_id r = 2 \<and> lr_return_date r = None)
        (loans (committed (conn (fst (issue_book (init (committed (conn example_system3))) 500 2 5)))))) = 4"
  by code_simp

text \<open>
  Claim C4. After the load of a store in which user 1 has an open loan of book 1, every
  user in the list of users holds no book, and the loaded loan refers to a user object of
  its own (address 2) that is not in the list of users (addresses 0 and 1).
\<close>

theorem load_leaves_held_books_empty:
  "map (\<lambda>x. (user_id (snd x), borrowed_books (snd x))) (get_users example_system) = [(1, []), (2, [])]
   \<and> map lr_book_id (filter (\<lambda>r. lr_user_id r = 1 \<and> lr_return_date r = None)
        (loans (committed (conn example_system)))) = [1]
   \<and> map (\<lambda>x. (loan_id (snd x), loan_user (snd x), return_date (snd x))) (get_loans example_system)
        = [(1, 2, None)]
   \<and> cache_users example_system = [0, 1]"
  by code_simp

section \<open>Adding books of one author\<close>











section \<open>The invariant of lending\<close>

subsection \<open>Stores\<close>

lemma map_if_mem:
  "y \<in> set (map (\<lambda>x. if P x then f x else x) xs) \<Longrightarrow> \<exists>x \<in> set xs. (P x \<and> y = f x) \<or> (\<not> P x \<and> y = x)"
  by auto

lemma open_loan_books_cong: "loans db' = loans db \<Longrightarrow> open_loan_books db' = open_loan_books db"
  by (simp add: open_loan_books_def)

lemma store_okD:
  assumes "store_ok db"
  shows "distinct (open_loan_books db)"
    and "\<And>r. r \<in> set (books db) \<Longrightarrow> br_status r = STATUS_AVAILABLE \<Longrightarrow> br_id r \<notin> set (open_loan_books db)"
    and "\<And>b. b \<in> set (open_loan_books db) \<Longrightarrow> b \<le> seq_books db"
    and "\<And>r. r \<in> set (books db) \<Longrightarrow> br_id r \<le> seq_books db"
  using assms unfolding store_ok_def by blast+

text \<open>A change of the store that leaves the loans alone keeps a store in order when every
  available book afterwards was available before or has an id beyond the old counter.\<close>

lemma store_ok_same_loans:
  assumes ok: "store_ok db" and l: "loans db' = loans db" and sq: "seq_books db \<le> seq_books db'"
    and bk: "\<And>r'. r' \<in> set (books db') \<Longrightarrow> br_id r' \<le> seq_books db' \<and>
        (br_status r' = STATUS_AVAILABLE \<longrightarrow>
           (\<exists>r \<in> set (books db). br_id r = br_id r' \<and> br_status r = STATUS_AVAILABLE)
           \<or> seq_books db < br_id r')"
  shows "store_ok db'"
proof -
  have o: "open_loan_books db' = open_loan_books db"
    using l by (rule open_loan_books_cong)
  have 1: "distinct (open_loan_books db')"
    using store_okD(1) [OF ok] o by simp
  have 2: "\<forall>r \<in> set (books db'). br_status r = STATUS_AVAILABLE \<longrightarrow> br_id r \<notin> set (open_loan_books db')"
  proof (intro ballI impI)
    fix r' assume r': "r' \<in> set (books db')" "br_status r' = STATUS_AVAILABLE"
    from bk [OF r'(1)] r'(2)
    consider r where "r \<in> set (books db)" "br_id r = br_id r'" "br_status r = STATUS_AVAILABLE"
      | "seq_books db < br_id r'"
      by blast
    then show "br_id r' \<notin> set (open_loan_books db')"
    proof cases
      case 1
      from store_okD(2) [OF ok 1(1) 1(3)] have "br_id r \<notin> set (open_loan_books db)" .
      with 1 o show ?thesis by metis
    next
      case 2
      have "\<forall>b \<in> set (open_loan_books db). b \<le> seq_books db"
        using store_okD(3) [OF ok] by blast
      with 2 o show ?thesis by fastforce
    qed
  qed
  have 3: "\<forall>b \<in> set (open_loan_books db'). b \<le> seq_books db'"
    using store_okD(3) [OF ok] o sq by fastforce
  have 4: "\<forall>r \<in> set (books db'). br_id r \<le> seq_books db'"
    using bk by blast
  from 1 2 3 4 show ?thesis
    unfolding store_ok_def by blast
qed

lemma cache_books_okD:
  assumes "cache_books_ok s db" and "find_book s bid = Some (ba, b)"
  shows "bid \<le> seq_books db" and "is_available b \<Longrightarrow> bid \<notin> set (open_loan_books db)"
  using assms unfolding cache_books_ok_def by blast+

lemma cache_loans_okD:
  assumes "cache_loans_ok s db" and "find_loan s lid = Some (la, l)" and "return_date l = None"
  shows "\<exists>r \<in> set (loans db). lr_id r = lid \<and> lr_return_date r = None
             \<and> lr_book_id r = book_id (the (book_heap s (loan_book l)))"
  using assms unfolding cache_loans_ok_def by blast

lemma cache_books_ok_same_loans:
  assumes ok: "cache_books_ok s db" and l: "loans db' = loans db" and sq: "seq_books db \<le> seq_books db'"
  shows "cache_books_ok s db'"
  unfolding cache_books_ok_def
proof (intro allI impI conjI)
  fix bid ba b assume f: "find_book s bid = Some (ba, b)"
  from cache_books_okD(1) [OF ok f] sq show "bid \<le> seq_books db'"
    by simp
  assume "is_available b"
  from cache_books_okD(2) [OF ok f this] show "bid \<notin> set (open_loan_books db')"
    using open_loan_books_cong [OF l] by simp
qed

lemma cache_loans_ok_same_loans:
  assumes ok: "cache_loans_ok s db" and l: "loans db' = loans db"
  shows "cache_loans_ok s db'"
  using ok unfolding cache_loans_ok_def l .

lemma cache_ok_same_loans:
  assumes "cache_ok s db" and "loans db' = loans db" and "seq_books db \<le> seq_books db'"
  shows "cache_ok s db'"
  using assms cache_books_ok_same_loans cache_loans_ok_same_loans unfolding cache_ok_def by blast

lemma seq_books_simps [simp]:
  "seq_books (update_book_title db bid t) = seq_books db"
  "seq_books (update_book_year db bid y) = seq_books db"
  "seq_books (update_book_status db bid st) = seq_books db"
  "seq_books (update_author_bio_of_book db bid bio) = seq_books db"
  "seq_books (update_user_name db uid n) = seq_books db"
  "seq_books (update_loan_return_date db lid dt) = seq_books db"
  "seq_books (delete_book db bid) = seq_books db"
  "seq_books (delete_user_row db uid) = seq_books db"
  "seq_books (fst (insert_user db n)) = seq_books db"
  "seq_books (fst (insert_loan db bid uid dt)) = seq_books db"
  by (simp_all add: update_book_title_def update_book_year_def update_book_status_def
      update_author_bio_of_book_def update_user_name_def update_loan_return_date_def
      delete_book_def delete_user_row_def insert_user_def insert_loan_def Let_def split: option.splits)

lemma loans_simps [simp]:
  "loans (update_book_title db bid t) = loans db"
  "loans (update_book_year db bid y) = loans db"
  "loans (update_author_bio_of_book db bid bio) = loans db"
  "loans (update_user_name db uid n) = loans db"
  "loans (delete_book db bid) = loans db"
  "loans (delete_user_row db uid) = loans db"
  "loans (fst (insert_user db n)) = loans db"
  by (simp_all add: update_book_title_def update_book_year_def
      update_author_bio_of_book_def update_user_name_def
      delete_book_def delete_user_row_def insert_user_def Let_def split: option.splits)

lemma books_simps [simp]:
  "books (update_author_bio_of_book db bid bio) = books db"
  "books (update_user_name db uid n) = books db"
  "books (update_loan_return_date db lid dt) = books db"
  "books (delete_user_row db uid) = books db"
  "books (fst (insert_user db n)) = books db"
  by (simp_all add: update_author_bio_of_book_def update_user_name_def update_loan_return_date_def
      delete_user_row_def insert_user_def Let_def split: option.splits)

lemma insert_author_frame:
  "insert_author db name bio = Inr (db', i) \<Longrightarrow>
     loans db' = loans db \<and> books db' = books db \<and> seq_books db' = seq_books db"
  by (auto simp: insert_author_def Let_def split: if_splits)

lemma insert_book_frame:
  "insert_book db title aid year st = Inr (db', i) \<Longrightarrow>
     loans db' = loans db \<and> seq_books db' = i \<and> seq_books db < i \<and>
     (\<forall>r \<in> set (books db). br_id r < i) \<and>
     books db' = books db @ [\<lparr>br_id = i, br_title = title, br_author_id = aid, br_year = year, br_status = st\<rparr>]"
proof -
  assume a: "insert_book db title aid year st = Inr (db', i)"
  then have i: "i = next_rowid (map br_id (books db)) (seq_books db)"
    by (auto simp: insert_book_def Let_def split: if_splits)
  have "seq_books db < i"
    unfolding i next_rowid_def using fold_max_ge [of "seq_books db" "map br_id (books db)"] by simp
  moreover have "\<forall>r \<in> set (books db). br_id r < i"
    unfolding i using next_rowid_fresh [of _ "map br_id (books db)"] by simp
  ultimately show ?thesis
    using a by (auto simp: insert_book_def Let_def split: if_splits)
qed

lemma store_ok_books_map:
  assumes ok: "store_ok db" and l: "loans db' = loans db" and sq: "seq_books db' = seq_books db"
    and b: "books db' = map f (books db)"
    and f: "\<And>r. br_id (f r) = br_id r \<and> br_status (f r) = br_status r"
  shows "store_ok db'"
proof (rule store_ok_same_loans [OF ok l])
  show "seq_books db \<le> seq_books db'"
    using sq by simp
next
  fix r' assume "r' \<in> set (books db')"
  then obtain r where r: "r \<in> set (books db)" "r' = f r"
    using b by auto
  have "br_id r' \<le> seq_books db'"
    using store_okD(4) [OF ok r(1)] f [of r] r(2) sq by simp
  moreover have "br_status r' = STATUS_AVAILABLE \<longrightarrow>
      (\<exists>r \<in> set (books db). br_id r = br_id r' \<and> br_status r = STATUS_AVAILABLE)"
    using r f [of r] by metis
  ultimately show "br_id r' \<le> seq_books db' \<and>
        (br_status r' = STATUS_AVAILABLE \<longrightarrow>
           (\<exists>r \<in> set (books db). br_id r = br_id r' \<and> br_status r = STATUS_AVAILABLE)
           \<or> seq_books db < br_id r')"
    by blast
qed

lemma store_ok_update_book_title: "store_ok db \<Longrightarrow> store_ok (update_book_title db bid t)"
  by (rule store_ok_books_map [where f = "\<lambda>r. if br_id r = bid then r\<lparr>br_title := t\<rparr> else r"])
     (simp_all add: update_book_title_def)

lemma store_ok_update_book_year: "store_ok db \<Longrightarrow> store_ok (update_book_year db bid y)"
  by (rule store_ok_books_map [where f = "\<lambda>r. if br_id r = bid then r\<lparr>br_year := y\<rparr> else r"])
     (simp_all add: update_book_year_def)

lemma store_ok_books_same:
  assumes "store_ok db" and "loans db' = loans db" and "seq_books db' = seq_books db"
    and "books db' = books db"
  shows "store_ok db'"
  by (rule store_ok_books_map [where f = "\<lambda>r. r", OF assms(1,2,3)]) (simp_all add: assms(4))

lemma store_ok_delete_book: "store_ok db \<Longrightarrow> store_ok (delete_book db bid)"
proof (rule store_ok_same_loans [where db = db])
  fix r' assume "r' \<in> set (books (delete_book db bid))"
  then have r: "r' \<in> set (books db)"
    by (simp add: delete_book_def)
  assume ok: "store_ok db"
  from store_okD(4) [OF ok r] r
  show "br_id r' \<le> seq_books (delete_book db bid) \<and>
        (br_status r' = STATUS_AVAILABLE \<longrightarrow>
           (\<exists>r \<in> set (books db). br_id r = br_id r' \<and> br_status r = STATUS_AVAILABLE)
           \<or> seq_books db < br_id r')"
    by auto
qed simp_all

lemma store_ok_insert_book:
  assumes ok: "store_ok db" and ins: "insert_book db title aid year st = Inr (db', i)"
  shows "store_ok db'"
proof (rule store_ok_same_loans [OF ok])
  note fr = insert_book_frame [OF ins]
  show "loans db' = loans db" using fr by simp
  show "seq_books db \<le> seq_books db'" using fr by simp
  fix r' assume "r' \<in> set (books db')"
  then consider "r' \<in> set (books db)" | "br_id r' = i"
    using fr by auto
  then show "br_id r' \<le> seq_books db' \<and>
        (br_status r' = STATUS_AVAILABLE \<longrightarrow>
           (\<exists>r \<in> set (books db). br_id r = br_id r' \<and> br_status r = STATUS_AVAILABLE)
           \<or> seq_books db < br_id r')"
  proof cases
    case 1
    then have "br_id r' < i" using fr by blast
    with 1 fr show ?thesis by auto
  next
    case 2
    with fr show ?thesis by simp
  qed
qed

lemma open_after_return:
  "filter (\<lambda>r. lr_return_date r = None) (loans (update_loan_return_date db lid t)) =
     filter (\<lambda>r. lr_return_date r = None \<and> lr_id r \<noteq> lid) (loans db)"
proof -
  have "filter (\<lambda>r. lr_return_date r = None)
          (map (\<lambda>r. if lr_id r = lid then r\<lparr>lr_return_date := Some t\<rparr> else r) rs) =
        filter (\<lambda>r. lr_return_date r = None \<and> lr_id r \<noteq> lid) rs" for rs :: "loan_row list"
    by (induction rs) simp_all
  then show ?thesis
    by (simp add: update_loan_return_date_def)
qed

lemma open_loan_books_issue:
  "open_loan_books (update_book_status (fst (insert_loan db bid uid now)) bid st) =
     open_loan_books db @ [bid]"
  by (simp add: open_loan_books_def loans_insert_loan)

lemma update_status_mem_cases:
  assumes "r' \<in> set (books (update_book_status db bid st))"
  shows "(br_id r' = bid \<and> br_status r' = st) \<or> (br_id r' \<noteq> bid \<and> r' \<in> set (books db))"
proof -
  from assms have "r' \<in> set (map (\<lambda>r. if br_id r = bid then r\<lparr>br_status := st\<rparr> else r) (books db))"
    unfolding books_update_book_status .
  from map_if_mem [OF this] obtain r where r: "r \<in> set (books db)"
    "(br_id r = bid \<and> r' = r\<lparr>br_status := st\<rparr>) \<or> (br_id r \<noteq> bid \<and> r' = r)"
    by blast
  from r(2) show ?thesis
  proof
    assume "br_id r = bid \<and> r' = r\<lparr>br_status := st\<rparr>"
    then show ?thesis by simp
  next
    assume "br_id r \<noteq> bid \<and> r' = r"
    with r(1) show ?thesis by simp
  qed
qed

lemma update_status_ids:
  "r' \<in> set (books (update_book_status db bid st)) \<Longrightarrow> \<exists>r \<in> set (books db). br_id r = br_id r'"
proof -
  assume "r' \<in> set (books (update_book_status db bid st))"
  then have "r' \<in> set (map (\<lambda>r. if br_id r = bid then r\<lparr>br_status := st\<rparr> else r) (books db))"
    unfolding books_update_book_status .
  from map_if_mem [OF this] obtain r where r: "r \<in> set (books db)"
    "(br_id r = bid \<and> r' = r\<lparr>br_status := st\<rparr>) \<or> (br_id r \<noteq> bid \<and> r' = r)"
    by blast
  from r(2) have "br_id r = br_id r'"
    by (elim disjE conjE) simp_all
  with r(1) show ?thesis by blast
qed

lemma status_neq [simp]: "STATUS_ON_LOAN \<noteq> STATUS_AVAILABLE" "STATUS_AVAILABLE \<noteq> STATUS_ON_LOAN"
  by (simp_all add: STATUS_ON_LOAN_def STATUS_AVAILABLE_def)

lemma store_ok_issue:
  assumes ok: "store_ok db" and free: "bid \<notin> set (open_loan_books db)" and sq: "bid \<le> seq_books db"
  shows "store_ok (update_book_status (fst (insert_loan db bid uid now)) bid STATUS_ON_LOAN)"
proof -
  let ?db' = "update_book_status (fst (insert_loan db bid uid now)) bid STATUS_ON_LOAN"
  have o: "open_loan_books ?db' = open_loan_books db @ [bid]"
    by (rule open_loan_books_issue)
  have 1: "distinct (open_loan_books ?db')"
    unfolding o using store_okD(1) [OF ok] free by simp
  have 2: "br_id r \<notin> set (open_loan_books ?db')"
    if r: "r \<in> set (books ?db')" "br_status r = STATUS_AVAILABLE" for r
  proof -
    from update_status_mem_cases [OF r(1)] r(2)
    have "br_id r \<noteq> bid" "r \<in> set (books db)"
      by auto
    with store_okD(2) [OF ok this(2) r(2)] show ?thesis
      unfolding o by simp
  qed
  have 3: "b \<le> seq_books ?db'" if "b \<in> set (open_loan_books ?db')" for b
    using that store_okD(3) [OF ok, of b] sq unfolding o by auto
  have 4: "br_id r \<le> seq_books ?db'" if "r \<in> set (books ?db')" for r
  proof -
    from update_status_ids [OF that] obtain r0 where "r0 \<in> set (books db)" "br_id r0 = br_id r"
      by auto
    with store_okD(4) [OF ok this(1)] show ?thesis by simp
  qed
  from 1 2 3 4 show ?thesis
    unfolding store_ok_def by blast
qed

lemma store_ok_return:
  assumes ok: "store_ok db"
    and row: "\<exists>r \<in> set (loans db). lr_id r = lid \<and> lr_return_date r = None \<and> lr_book_id r = bk"
  shows "store_ok (update_book_status (update_loan_return_date db lid now) bk STATUS_AVAILABLE)"
proof -
  let ?db' = "update_book_status (update_loan_return_date db lid now) bk STATUS_AVAILABLE"
  let ?open = "filter (\<lambda>r. lr_return_date r = None) (loans db)"
  have o: "open_loan_books ?db' =
      map lr_book_id (filter (\<lambda>r. lr_return_date r = None \<and> lr_id r \<noteq> lid) (loans db))"
    by (simp add: open_loan_books_def open_after_return)
  have "set (map lr_book_id (filter (\<lambda>r. lr_return_date r = None \<and> lr_id r \<noteq> lid) (loans db)))
      \<subseteq> set (open_loan_books db)"
    by (auto simp: open_loan_books_def)
  then have sub: "set (open_loan_books ?db') \<subseteq> set (open_loan_books db)"
    using o by simp
  have d: "distinct (map lr_book_id ?open)"
    using store_okD(1) [OF ok] by (simp add: open_loan_books_def)
  have fo: "filter (\<lambda>r. lr_return_date r = None \<and> lr_id r \<noteq> lid) (loans db) =
      filter (\<lambda>r. lr_id r \<noteq> lid) ?open"
    by (simp add: conj_commute)
  have "distinct (map lr_book_id (filter (\<lambda>r. lr_id r \<noteq> lid) ?open))"
    using d by (rule distinct_map_filter)
  then have 1: "distinct (open_loan_books ?db')"
    unfolding o fo .
  have bk: "bk \<notin> set (open_loan_books ?db')"
  proof
    assume "bk \<in> set (open_loan_books ?db')"
    then obtain r1 where r1: "r1 \<in> set ?open" "lr_id r1 \<noteq> lid" "lr_book_id r1 = bk"
      unfolding o by auto
    from row obtain r0 where r0: "r0 \<in> set ?open" "lr_id r0 = lid" "lr_book_id r0 = bk"
      by auto
    from d have "inj_on lr_book_id (set ?open)"
      by (simp add: distinct_map)
    with r0 r1 have "r0 = r1"
      by (auto dest: inj_onD)
    with r0 r1 show False by simp
  qed
  have 2: "br_id r \<notin> set (open_loan_books ?db')"
    if r: "r \<in> set (books ?db')" "br_status r = STATUS_AVAILABLE" for r
  proof -
    from update_status_mem_cases [OF r(1)]
    consider "br_id r = bk" | "r \<in> set (books db)"
      by auto
    then show ?thesis
    proof cases
      case 1
      with bk show ?thesis by simp
    next
      case 2
      from store_okD(2) [OF ok 2 r(2)] sub show ?thesis by blast
    qed
  qed
  have 3: "b \<le> seq_books ?db'" if "b \<in> set (open_loan_books ?db')" for b
    using that sub store_okD(3) [OF ok, of b] by auto
  have 4: "br_id r \<le> seq_books ?db'" if "r \<in> set (books ?db')" for r
  proof -
    from update_status_ids [OF that] obtain r0 where "r0 \<in> set (books db)" "br_id r0 = br_id r"
      by auto
    with store_okD(4) [OF ok this(1)] show ?thesis by simp
  qed
  from 1 2 3 4 show ?thesis
    unfolding store_ok_def by blast
qed

subsection \<open>Objects\<close>

lemma alloc_books_props:
  "alloc_books bs s = (s', as) \<Longrightarrow>
     conn s' = conn s \<and> loan_heap s' = loan_heap s \<and> user_heap s' = user_heap s
     \<and> next_loan s' = next_loan s \<and> next_user s' = next_user s
     \<and> cache_books s' = cache_books s \<and> cache_users s' = cache_users s
     \<and> cache_loans s' = cache_loans s \<and> cache_authors s' = cache_authors s
     \<and> next_book s' = next_book s + length bs
     \<and> (\<forall>a < next_book s. book_heap s' a = book_heap s a)
     \<and> (\<forall>a \<ge> next_book s'. book_heap s' a = book_heap s a)
     \<and> set as \<subseteq> {next_book s ..< next_book s'}
     \<and> (\<forall>i < length bs. book_heap s' (next_book s + i) = Some (bs ! i))"
proof (induction bs arbitrary: s s' as)
  case Nil
  then show ?case by simp
next
  case (Cons b bs)
  let ?s1 = "s\<lparr>book_heap := (book_heap s)(next_book s \<mapsto> b), next_book := Suc (next_book s)\<rparr>"
  from Cons.prems obtain as1 where a: "alloc_books bs ?s1 = (s', as1)" "as = next_book s # as1"
    by (auto simp: new_book_def split: prod.splits)
  note ih = Cons.IH [OF a(1)]
  have "\<forall>i < length (b # bs). book_heap s' (next_book s + i) = Some ((b # bs) ! i)"
  proof (intro allI impI)
    fix i assume i: "i < length (b # bs)"
    show "book_heap s' (next_book s + i) = Some ((b # bs) ! i)"
    proof (cases i)
      case 0
      with ih show ?thesis by simp
    next
      case (Suc j)
      with i ih show ?thesis by simp
    qed
  qed
  moreover have "set as \<subseteq> {next_book s ..< next_book s'}"
    using ih a(2) by auto
  ultimately show ?case
    using ih by simp
qed

lemma deref_cong: "(\<And>a. a \<in> set as \<Longrightarrow> h' a = h a) \<Longrightarrow> deref h' as = deref h as"
  by (induction as) (simp_all add: deref_Cons split: option.splits)

lemma deref_append: "deref h (as @ bs) = deref h as @ deref h bs"
  by (induction as) (simp_all add: deref_Cons split: option.splits)

lemma find_append_cases:
  "find P (xs @ ys) = (case find P xs of None \<Rightarrow> find P ys | Some x \<Rightarrow> Some x)"
  by (induction xs) simp_all

text \<open>Replacing an object by one with the same key changes what a search by key finds
  only in that object.\<close>

lemma find_deref_update_same_key:
  assumes "h a0 = Some x0" and "key x1 = key x0"
  shows "find (\<lambda>(a, x). key x = k) (deref (h(a0 \<mapsto> x1)) as) =
     map_option (\<lambda>(a, x). if a = a0 then (a, x1) else (a, x)) (find (\<lambda>(a, x). key x = k) (deref h as))"
proof (induction as)
  case Nil
  then show ?case by simp
next
  case (Cons a as)
  show ?case
  proof (cases "a = a0")
    case True
    with assms Cons show ?thesis by (simp add: deref_Cons)
  next
    case False
    with Cons show ?thesis by (simp add: deref_Cons split: option.splits)
  qed
qed

lemma find_SomeD: "find P xs = Some x \<Longrightarrow> x \<in> set xs \<and> P x"
  by (induction xs) (auto split: if_splits)

lemma find_book_SomeD:
  "find_book s bid = Some (ba, b) \<Longrightarrow> book_heap s ba = Some b \<and> ba \<in> set (cache_books s) \<and> book_id b = bid"
  unfolding find_book_def get_books_def by (drule find_SomeD) (simp add: deref_mem)

lemma find_loan_SomeD:
  "find_loan s lid = Some (la, l) \<Longrightarrow> loan_heap s la = Some l \<and> la \<in> set (cache_loans s) \<and> loan_id l = lid"
  unfolding find_loan_def get_loans_def by (drule find_SomeD) (simp add: deref_mem)

lemma alloc_users_props:
  "alloc_users us s = (s', as) \<Longrightarrow>
     conn s' = conn s \<and> loan_heap s' = loan_heap s \<and> book_heap s' = book_heap s
     \<and> next_loan s' = next_loan s \<and> next_book s' = next_book s
     \<and> cache_books s' = cache_books s \<and> cache_users s' = cache_users s
     \<and> cache_loans s' = cache_loans s \<and> cache_authors s' = cache_authors s"
proof (induction us arbitrary: s s' as)
  case Nil
  then show ?case by simp
next
  case (Cons u us)
  let ?s1 = "s\<lparr>user_heap := (user_heap s)(next_user s \<mapsto> u), next_user := Suc (next_user s)\<rparr>"
  from Cons.prems obtain as1 where a: "alloc_users us ?s1 = (s', as1)"
    by (auto simp: new_user_def split: prod.splits)
  from Cons.IH [OF a] show ?case by simp
qed

lemma get_book_by_id_id: "get_book_by_id db bid = Some b \<Longrightarrow> book_id b = bid"
proof -
  assume a: "get_book_by_id db bid = Some b"
  then obtain r where r: "find (\<lambda>r. br_id r = bid) (books db) = Some r" "book_of_row db r = Some b"
    by (auto simp: get_book_by_id_def split: option.splits)
  from find_SomeD [OF r(1)] have "br_id r = bid" by simp
  moreover from r(2) have "book_id b = br_id r"
    by (auto simp: book_of_row_def split: option.splits)
  ultimately show ?thesis by simp
qed

lemma book_of_row_fields:
  "book_of_row db r = Some b \<Longrightarrow> book_id b = br_id r \<and> book_status b = br_status r"
  by (auto simp: book_of_row_def split: option.splits)

lemma heap_okD:
  assumes "heap_ok s"
  shows "\<And>a b. book_heap s a = Some b \<Longrightarrow> a < next_book s"
    and "\<And>a l. loan_heap s a = Some l \<Longrightarrow> a < next_loan s"
    and "\<And>a l. loan_heap s a = Some l \<Longrightarrow> \<exists>b. book_heap s (loan_book l) = Some b"
    and "\<And>a. a \<in> set (cache_books s) \<Longrightarrow> a < next_book s"
    and "\<And>a. a \<in> set (cache_loans s) \<Longrightarrow> a < next_loan s"
  using assms unfolding heap_ok_def by blast+

lemma heap_okI:
  assumes "\<And>a b. book_heap s a = Some b \<Longrightarrow> a < next_book s"
    and "\<And>a l. loan_heap s a = Some l \<Longrightarrow> a < next_loan s"
    and "\<And>a l. loan_heap s a = Some l \<Longrightarrow> \<exists>b. book_heap s (loan_book l) = Some b"
    and "\<And>a. a \<in> set (cache_books s) \<Longrightarrow> a < next_book s"
    and "\<And>a. a \<in> set (cache_loans s) \<Longrightarrow> a < next_loan s"
  shows "heap_ok s"
  unfolding heap_ok_def using assms by blast

lemma load_loan_rows_props:
  assumes "load_loan_rows rs s = (s', as)" and "heap_ok s"
  shows "conn s' = conn s \<and> cache_books s' = cache_books s \<and> cache_loans s' = cache_loans s
    \<and> (\<forall>a < next_book s. book_heap s' a = book_heap s a) \<and> next_book s \<le> next_book s'
    \<and> (\<forall>a < next_loan s. loan_heap s' a = loan_heap s a) \<and> next_loan s \<le> next_loan s'
    \<and> heap_ok s'
    \<and> (\<forall>a \<in> set as. next_loan s \<le> a \<and>
          (\<exists>l r b. loan_heap s' a = Some l \<and> r \<in> set rs \<and> loan_id l = lr_id r
              \<and> return_date l = lr_return_date r
              \<and> book_heap s' (loan_book l) = Some b \<and> book_id b = lr_book_id r))"
  using assms
proof (induction rs arbitrary: s s' as)
  case Nil
  then show ?case by simp
next
  case (Cons r rs)
  note hs = Cons.prems(2)
  show ?case
  proof (cases "get_book_by_id (working (conn s)) (lr_book_id r)")
    case None
    with Cons.prems have "load_loan_rows rs s = (s', as)" by simp
    note ih = Cons.IH [OF this hs]
    have "\<forall>a \<in> set as. next_loan s \<le> a \<and>
        (\<exists>l r' b. loan_heap s' a = Some l \<and> r' \<in> set (r # rs) \<and> loan_id l = lr_id r'
            \<and> return_date l = lr_return_date r'
            \<and> book_heap s' (loan_book l) = Some b \<and> book_id b = lr_book_id r')"
    proof
      fix a assume "a \<in> set as"
      with ih obtain l r' b' where "next_loan s \<le> a" "loan_heap s' a = Some l" "r' \<in> set rs"
        "loan_id l = lr_id r'" "return_date l = lr_return_date r'"
        "book_heap s' (loan_book l) = Some b'" "book_id b' = lr_book_id r'"
        by fastforce
      then show "next_loan s \<le> a \<and>
        (\<exists>l r' b. loan_heap s' a = Some l \<and> r' \<in> set (r # rs) \<and> loan_id l = lr_id r'
            \<and> return_date l = lr_return_date r'
            \<and> book_heap s' (loan_book l) = Some b \<and> book_id b = lr_book_id r')"
        by auto
    qed
    with ih show ?thesis by simp
  next
    case (Some b)
    note b = this
    show ?thesis
    proof (cases "get_user_by_id (working (conn s)) (lr_user_id r)")
      case None
      with b Cons.prems have "load_loan_rows rs s = (s', as)" by simp
      note ih = Cons.IH [OF this hs]
      have "\<forall>a \<in> set as. next_loan s \<le> a \<and>
          (\<exists>l r' b. loan_heap s' a = Some l \<and> r' \<in> set (r # rs) \<and> loan_id l = lr_id r'
              \<and> return_date l = lr_return_date r'
              \<and> book_heap s' (loan_book l) = Some b \<and> book_id b = lr_book_id r')"
      proof
        fix a assume "a \<in> set as"
        with ih obtain l r' b' where "next_loan s \<le> a" "loan_heap s' a = Some l" "r' \<in> set rs"
          "loan_id l = lr_id r'" "return_date l = lr_return_date r'"
          "book_heap s' (loan_book l) = Some b'" "book_id b' = lr_book_id r'"
          by fastforce
        then show "next_loan s \<le> a \<and>
          (\<exists>l r' b. loan_heap s' a = Some l \<and> r' \<in> set (r # rs) \<and> loan_id l = lr_id r'
              \<and> return_date l = lr_return_date r'
              \<and> book_heap s' (loan_book l) = Some b \<and> book_id b = lr_book_id r')"
          by auto
      qed
      with ih show ?thesis by simp
    next
      case (Some u)
      let ?l = "\<lparr>loan_id = lr_id r, loan_book = next_book s, loan_user = next_user s,
                 issue_date = lr_issue_date r, return_date = lr_return_date r\<rparr>"
      let ?s3 = "s\<lparr>book_heap := (book_heap s)(next_book s \<mapsto> b), next_book := Suc (next_book s),
                    user_heap := (user_heap s)(next_user s \<mapsto> u), next_user := Suc (next_user s),
                    loan_heap := (loan_heap s)(next_loan s \<mapsto> ?l), next_loan := Suc (next_loan s)\<rparr>"
      from Cons.prems(1) b Some obtain as1 where
        a: "load_loan_rows rs ?s3 = (s', as1)" "as = next_loan s # as1"
        by (auto simp: new_book_def new_user_def new_loan_def split: prod.splits)
      have h3: "heap_ok ?s3"
      proof (rule heap_okI)
        fix a x assume "book_heap ?s3 a = Some x"
        then show "a < next_book ?s3"
          using heap_okD(1) [OF hs, of a x] by (auto split: if_splits)
      next
        fix a l assume "loan_heap ?s3 a = Some l"
        then show "a < next_loan ?s3"
          using heap_okD(2) [OF hs, of a l] by (auto split: if_splits)
      next
        fix a l assume "loan_heap ?s3 a = Some l"
        then show "\<exists>b. book_heap ?s3 (loan_book l) = Some b"
          using heap_okD(3) [OF hs, of a l] by (auto split: if_splits)
      next
        fix a assume "a \<in> set (cache_books ?s3)"
        then show "a < next_book ?s3"
          using heap_okD(4) [OF hs, of a] by auto
      next
        fix a assume "a \<in> set (cache_loans ?s3)"
        then show "a < next_loan ?s3"
          using heap_okD(5) [OF hs, of a] by auto
      qed
      note ih = Cons.IH [OF a(1) h3]
      have bid: "book_id b = lr_book_id r"
        using b by (rule get_book_by_id_id)
      have frame_b: "\<forall>a < next_book s. book_heap s' a = book_heap s a"
        using ih by auto
      have frame_l: "\<forall>a < next_loan s. loan_heap s' a = loan_heap s a"
        using ih by auto
      have hd_l: "loan_heap s' (next_loan s) = Some ?l"
        using ih by simp
      have hd_b: "book_heap s' (next_book s) = Some b"
        using ih by simp
      have tl: "\<forall>a \<in> set as1. next_loan s \<le> a \<and>
          (\<exists>l r' b. loan_heap s' a = Some l \<and> r' \<in> set (r # rs) \<and> loan_id l = lr_id r'
              \<and> return_date l = lr_return_date r'
              \<and> book_heap s' (loan_book l) = Some b \<and> book_id b = lr_book_id r')"
      proof
        fix a assume "a \<in> set as1"
        with ih obtain l r' b' where "Suc (next_loan s) \<le> a" "loan_heap s' a = Some l" "r' \<in> set rs"
          "loan_id l = lr_id r'" "return_date l = lr_return_date r'"
          "book_heap s' (loan_book l) = Some b'" "book_id b' = lr_book_id r'"
          by fastforce
        then show "next_loan s \<le> a \<and>
          (\<exists>l r' b. loan_heap s' a = Some l \<and> r' \<in> set (r # rs) \<and> loan_id l = lr_id r'
              \<and> return_date l = lr_return_date r'
              \<and> book_heap s' (loan_book l) = Some b \<and> book_id b = lr_book_id r')"
          by auto
      qed
      have hd: "\<exists>l r' b. loan_heap s' (next_loan s) = Some l \<and> r' \<in> set (r # rs) \<and> loan_id l = lr_id r'
              \<and> return_date l = lr_return_date r'
              \<and> book_heap s' (loan_book l) = Some b \<and> book_id b = lr_book_id r'"
        using hd_l hd_b bid by auto
      have "conn s' = conn s" "cache_books s' = cache_books s" "cache_loans s' = cache_loans s"
        "next_book s \<le> next_book s'" "next_loan s \<le> next_loan s'" "heap_ok s'"
        using ih by simp_all
      with frame_b frame_l tl hd a(2) show ?thesis
        by simp
    qed
  qed
qed

lemma cache_books_ok_cong:
  "get_books s' = get_books s \<Longrightarrow> cache_books_ok s' db = cache_books_ok s db"
  by (simp add: cache_books_ok_def find_book_def)

lemma cache_loans_ok_cong:
  assumes g: "get_loans s' = get_loans s"
    and b: "\<And>la l. loan_heap s la = Some l \<Longrightarrow>
        book_id (the (book_heap s' (loan_book l))) = book_id (the (book_heap s (loan_book l)))"
    and ok: "cache_loans_ok s db"
  shows "cache_loans_ok s' db"
  unfolding cache_loans_ok_def
proof (intro allI impI)
  fix lid la l assume f: "find_loan s' lid = Some (la, l)" and o: "return_date l = None"
  from f g have f': "find_loan s lid = Some (la, l)"
    by (simp add: find_loan_def)
  from find_loan_SomeD [OF f'] have "loan_heap s la = Some l" by simp
  from b [OF this] cache_loans_okD [OF ok f' o]
  show "\<exists>r \<in> set (loans db). lr_id r = lid \<and> lr_return_date r = None
             \<and> lr_book_id r = book_id (the (book_heap s' (loan_book l)))"
    by simp
qed

lemma set_map_filter_mem: "y \<in> set (List.map_filter f xs) \<longleftrightarrow> (\<exists>x \<in> set xs. f x = Some y)"
  by (induction xs) (auto simp: map_filter_simps split: option.splits)

lemma reload_books_inv:
  assumes hs: "heap_ok s" and st: "store_ok (working (conn s))" and cl: "cache_loans_ok s db"
  shows "heap_ok (reload_books s) \<and> cache_books_ok (reload_books s) (working (conn s))
     \<and> cache_loans_ok (reload_books s) db \<and> conn (reload_books s) = conn s"
proof -
  let ?db = "working (conn s)"
  let ?bs = "List.map_filter (book_of_row ?db) (books ?db)"
  obtain s' as where al: "alloc_books ?bs s = (s', as)"
    by (cases "alloc_books ?bs s") auto
  note p = alloc_books_props [OF al]
  let ?t = "s'\<lparr>cache_books := as\<rparr>"
  have rb: "reload_books s = ?t"
    using al by (simp add: reload_books_def load_books_def)
  have frame: "book_heap s' a = Some x \<Longrightarrow> a < next_book s'" for a x
  proof -
    assume a: "book_heap s' a = Some x"
    show "a < next_book s'"
    proof (rule ccontr)
      assume "\<not> a < next_book s'"
      then have ge: "a \<ge> next_book s'" by simp
      with p a have "book_heap s a = Some x" by simp
      from heap_okD(1) [OF hs this] ge p show False by simp
    qed
  qed
  have old: "book_heap s a = Some x \<Longrightarrow> book_heap s' a = Some x" for a x
    using heap_okD(1) [OF hs, of a x] p by simp
  have h: "heap_ok ?t"
  proof (rule heap_okI)
    fix a x assume "book_heap ?t a = Some x"
    then show "a < next_book ?t" using frame by simp
  next
    fix a l assume "loan_heap ?t a = Some l"
    then show "a < next_loan ?t" using heap_okD(2) [OF hs, of a l] p by simp
  next
    fix a l assume "loan_heap ?t a = Some l"
    then have "loan_heap s a = Some l" using p by simp
    from heap_okD(3) [OF hs this] obtain x where "book_heap s (loan_book l) = Some x" by blast
    from old [OF this] show "\<exists>b. book_heap ?t (loan_book l) = Some b" by simp
  next
    fix a assume "a \<in> set (cache_books ?t)"
    then show "a < next_book ?t" using p by auto
  next
    fix a assume "a \<in> set (cache_loans ?t)"
    then show "a < next_loan ?t" using heap_okD(5) [OF hs, of a] p by simp
  qed
  have cb: "cache_books_ok ?t ?db"
    unfolding cache_books_ok_def
  proof (intro allI impI)
    fix bid ba b assume "find_book ?t bid = Some (ba, b)"
    from find_book_SomeD [OF this] have f: "book_heap s' ba = Some b" "ba \<in> set as" "book_id b = bid"
      by simp_all
    from f(2) p have "next_book s \<le> ba" "ba < next_book s + length ?bs"
      by auto
    then have "ba = next_book s + (ba - next_book s)" "ba - next_book s < length ?bs"
      by simp_all
    then obtain i where i: "ba = next_book s + i" "i < length ?bs"
      by blast
    with p f(1) have "b = ?bs ! i" by simp
    with i have "b \<in> set ?bs" by simp
    then obtain r where r: "r \<in> set (books ?db)" "book_of_row ?db r = Some b"
      by (auto simp: set_map_filter_mem)
    from book_of_row_fields [OF r(2)] f(3) have e: "br_id r = bid" "br_status r = book_status b"
      by simp_all
    show "bid \<le> seq_books ?db \<and> (is_available b \<longrightarrow> bid \<notin> set (open_loan_books ?db))"
      using store_okD(4) [OF st r(1)] store_okD(2) [OF st r(1)] e
      by (simp add: is_available_def)
  qed
  have cl': "cache_loans_ok ?t db"
  proof (rule cache_loans_ok_cong [OF _ _ cl])
    show "get_loans ?t = get_loans s"
      using p by (simp add: get_loans_def)
  next
    fix la l assume "loan_heap s la = Some l"
    from heap_okD(3) [OF hs this] obtain x where x: "book_heap s (loan_book l) = Some x" by blast
    from old [OF this] x
    show "book_id (the (book_heap ?t (loan_book l))) = book_id (the (book_heap s (loan_book l)))"
      by simp
  qed
  have "conn ?t = conn s" using p by simp
  with h cb cl' show ?thesis unfolding rb by simp
qed

text \<open>The invariant reads the state only through the stores of books and loans and the
  lists of books and loans.\<close>

lemma inv_parts_cong:
  assumes "book_heap s' = book_heap s" "loan_heap s' = loan_heap s"
    "next_book s' = next_book s" "next_loan s' = next_loan s"
    "cache_books s' = cache_books s" "cache_loans s' = cache_loans s"
  shows "heap_ok s' = heap_ok s"
    and "cache_books_ok s' db = cache_books_ok s db"
    and "cache_loans_ok s' db = cache_loans_ok s db"
  using assms
  by (simp_all add: heap_ok_def cache_books_ok_def cache_loans_ok_def find_book_def find_loan_def
      get_books_def get_loans_def)

lemma conn_update_parts [simp]:
  "heap_ok (s\<lparr>conn := c\<rparr>) = heap_ok s"
  "cache_books_ok (s\<lparr>conn := c\<rparr>) db = cache_books_ok s db"
  "cache_loans_ok (s\<lparr>conn := c\<rparr>) db = cache_loans_ok s db"
  by (rule inv_parts_cong; simp)+

lemma lending_invD:
  assumes "lending_inv s"
  shows "heap_ok s" "store_ok (working (conn s))" "cache_books_ok s (working (conn s))"
    "cache_loans_ok s (working (conn s))" "store_ok (committed (conn s))"
    "cache_books_ok s (committed (conn s))" "cache_loans_ok s (committed (conn s))"
  using assms unfolding lending_inv_def cache_ok_def by blast+

lemma lending_invI:
  assumes "heap_ok s" "store_ok (working (conn s))" "cache_books_ok s (working (conn s))"
    "cache_loans_ok s (working (conn s))" "store_ok (committed (conn s))"
    "cache_books_ok s (committed (conn s))" "cache_loans_ok s (committed (conn s))"
  shows "lending_inv s"
  using assms unfolding lending_inv_def cache_ok_def by blast

lemma catalog_commit_inv:
  assumes hs: "heap_ok s" and cl: "cache_loans_ok s db" and st: "store_ok db'"
    and l: "loans db' = loans db"
  shows "lending_inv (reload_books (s\<lparr>conn := \<lparr>committed = db', working = db'\<rparr>\<rparr>))"
proof -
  let ?s0 = "s\<lparr>conn := \<lparr>committed = db', working = db'\<rparr>\<rparr>"
  have h0: "heap_ok ?s0"
    using hs inv_parts_cong(1) [of ?s0 s] by simp
  have "cache_loans_ok ?s0 db"
    using cl inv_parts_cong(3) [of ?s0 s db] by simp
  then have c0: "cache_loans_ok ?s0 db'"
    using l by (rule cache_loans_ok_same_loans)
  have st0: "store_ok (working (conn ?s0))"
    using st by simp
  from reload_books_inv [OF h0 st0 c0] st
  show ?thesis
    by (intro lending_invI) simp_all
qed

lemma user_commit_inv:
  assumes inv: "lending_inv s"
    and fr: "book_heap s' = book_heap s" "loan_heap s' = loan_heap s"
      "next_book s' = next_book s" "next_loan s' = next_loan s"
      "cache_books s' = cache_books s" "cache_loans s' = cache_loans s"
    and c: "conn s' = \<lparr>committed = db', working = db'\<rparr>"
    and db: "loans db' = loans (working (conn s))" "books db' = books (working (conn s))"
      "seq_books db' = seq_books (working (conn s))"
  shows "lending_inv s'"
proof -
  note i = lending_invD [OF inv]
  note pc = inv_parts_cong [OF fr]
  have st: "store_ok db'"
    using i(2) db(1) db(3) db(2) by (rule store_ok_books_same)
  have cb: "cache_books_ok s' db'"
    unfolding pc using i(3) db(1) by (rule cache_books_ok_same_loans) (simp add: db(3))
  have cl: "cache_loans_ok s' db'"
    unfolding pc using i(4) db(1) by (rule cache_loans_ok_same_loans)
  show ?thesis
    using st cb cl i(1) pc(1) c by (intro lending_invI) simp_all
qed

lemma rollback_inv:
  assumes inv: "lending_inv s"
  shows "lending_inv (s\<lparr>conn := rollback (conn s)\<rparr>)"
  using lending_invD [OF inv] by (intro lending_invI) (simp_all add: rollback_def)

lemma pending_inv:
  assumes inv: "lending_inv s" and st: "store_ok db'"
    and l: "loans db' = loans (working (conn s))" and sq: "seq_books db' = seq_books (working (conn s))"
  shows "lending_inv (s\<lparr>conn := (conn s)\<lparr>working := db'\<rparr>\<rparr>)"
proof -
  note i = lending_invD [OF inv]
  have cb: "cache_books_ok s db'"
    using i(3) l by (rule cache_books_ok_same_loans) (simp add: sq)
  have cl: "cache_loans_ok s db'"
    using i(4) l by (rule cache_loans_ok_same_loans)
  show ?thesis
    using i st cb cl by (intro lending_invI) simp_all
qed

subsection \<open>Each call keeps the invariant\<close>

lemma commit_working [simp]: "commit (c\<lparr>working := db\<rparr>) = \<lparr>committed = db, working = db\<rparr>"
  by (simp add: commit_def)

lemma reload_authors_inv [simp]: "lending_inv (reload_authors s) = lending_inv s"
proof -
  have "heap_ok (reload_authors s) = heap_ok s"
    "\<And>db. cache_books_ok (reload_authors s) db = cache_books_ok s db"
    "\<And>db. cache_loans_ok (reload_authors s) db = cache_loans_ok s db"
    by (rule inv_parts_cong; simp add: reload_authors_def)+
  then show ?thesis
    by (simp add: lending_inv_def cache_ok_def)
qed

lemma register_user_inv:
  assumes inv: "lending_inv s"
  shows "lending_inv (fst (register_user s name))"
proof (rule user_commit_inv [OF inv])
  let ?db = "fst (insert_user (working (conn s)) name)"
  show "conn (fst (register_user s name)) = \<lparr>committed = ?db, working = ?db\<rparr>"
    by (simp add: register_user_def new_user_def split: prod.splits)
qed (simp_all add: register_user_def new_user_def split: prod.splits)

lemma edit_user_inv:
  assumes inv: "lending_inv s"
  shows "lending_inv (fst (edit_user s uid name))"
proof (cases "sqlite_int uid")
  case False
  with inv show ?thesis by (simp add: edit_user_def)
next
  case True
  show ?thesis
  proof (rule user_commit_inv [OF inv])
    let ?db = "update_user_name (working (conn s)) uid name"
    show "conn (fst (edit_user s uid name)) = \<lparr>committed = ?db, working = ?db\<rparr>"
      using True by (simp add: edit_user_def Let_def split: option.splits prod.splits)
  qed (simp_all add: True edit_user_def Let_def split: option.splits prod.splits)
qed

lemma delete_user_inv:
  assumes inv: "lending_inv s"
  shows "lending_inv (fst (delete_user s uid))"
proof (cases "sqlite_int uid")
  case False
  with inv show ?thesis by (simp add: delete_user_def)
next
  case True
  show ?thesis
  proof (rule user_commit_inv [OF inv])
    let ?db = "delete_user_row (working (conn s)) uid"
    show "conn (fst (delete_user s uid)) = \<lparr>committed = ?db, working = ?db\<rparr>"
      using True by (simp add: delete_user_def Let_def)
  qed (simp_all add: True delete_user_def Let_def)
qed

lemma issue_success_inv:
  assumes inv: "lending_inv s"
    and fu: "find_user s uid = Some (ua, u)" and fb: "find_book s bid = Some (ba, b)"
    and av: "is_available b"
  shows "lending_inv
    (s\<lparr>conn := \<lparr>committed = update_book_status (fst (insert_loan (working (conn s)) bid uid now)) bid STATUS_ON_LOAN,
                 working = update_book_status (fst (insert_loan (working (conn s)) bid uid now)) bid STATUS_ON_LOAN\<rparr>,
       loan_heap := (loan_heap s)(next_loan s \<mapsto>
          \<lparr>loan_id = snd (insert_loan (working (conn s)) bid uid now), loan_book = ba, loan_user = ua,
            issue_date = now, return_date = None\<rparr>),
       next_loan := Suc (next_loan s),
       book_heap := (book_heap s)(ba \<mapsto> b\<lparr>book_status := STATUS_ON_LOAN\<rparr>),
       user_heap := (user_heap s)(ua \<mapsto> u\<lparr>borrowed_books := borrowed_books u @ [ba]\<rparr>),
       cache_loans := cache_loans s @ [next_loan s]\<rparr>)" (is "lending_inv ?s'")
proof -
  note i = lending_invD [OF inv]
  let ?w = "working (conn s)"
  let ?db' = "update_book_status (fst (insert_loan ?w bid uid now)) bid STATUS_ON_LOAN"
  let ?lid = "snd (insert_loan ?w bid uid now)"
  let ?l = "\<lparr>loan_id = ?lid, loan_book = ba, loan_user = ua, issue_date = now, return_date = None\<rparr>"
  let ?b2 = "b\<lparr>book_status := STATUS_ON_LOAN\<rparr>"
  note fbD = find_book_SomeD [OF fb]
  have free: "bid \<notin> set (open_loan_books ?w)" and sq: "bid \<le> seq_books ?w"
    using cache_books_okD [OF i(3) fb] av by simp_all
  have st: "store_ok ?db'"
    using i(2) free sq by (rule store_ok_issue)
  have nl: "loan_heap s (next_loan s) = None"
    using heap_okD(2) [OF i(1), of "next_loan s"] by (cases "loan_heap s (next_loan s)") auto
  have nc: "next_loan s \<notin> set (cache_loans s)"
    using heap_okD(5) [OF i(1), of "next_loan s"] by auto
  have h: "heap_ok ?s'"
  proof (rule heap_okI)
    fix a x assume "book_heap ?s' a = Some x"
    then show "a < next_book ?s'"
      using heap_okD(1) [OF i(1), of a x] heap_okD(1) [OF i(1), of ba b] fbD
      by (auto split: if_splits)
  next
    fix a l assume "loan_heap ?s' a = Some l"
    then show "a < next_loan ?s'"
      using heap_okD(2) [OF i(1), of a l] by (auto split: if_splits)
  next
    fix a l assume "loan_heap ?s' a = Some l"
    then show "\<exists>b. book_heap ?s' (loan_book l) = Some b"
      using heap_okD(3) [OF i(1), of a l] by (auto split: if_splits)
  next
    fix a assume "a \<in> set (cache_books ?s')"
    then show "a < next_book ?s'"
      using heap_okD(4) [OF i(1), of a] by simp
  next
    fix a assume "a \<in> set (cache_loans ?s')"
    then show "a < next_loan ?s'"
      using heap_okD(5) [OF i(1), of a] by auto
  qed
  have fb': "find_book ?s' bid' =
      map_option (\<lambda>(a, x). if a = ba then (a, ?b2) else (a, x)) (find_book s bid')" for bid'
    using find_deref_update_same_key [of "book_heap s" ba b book_id ?b2 bid' "cache_books s"] fbD
    by (simp add: find_book_def get_books_def)
  have o: "open_loan_books ?db' = open_loan_books ?w @ [bid]"
    by (rule open_loan_books_issue)
  have cb: "cache_books_ok ?s' ?db'"
    unfolding cache_books_ok_def
  proof (intro allI impI)
    fix bid' ba' b' assume f: "find_book ?s' bid' = Some (ba', b')"
    then obtain b0 where b0: "find_book s bid' = Some (ba', b0)" "b' = (if ba' = ba then ?b2 else b0)"
      unfolding fb' by (auto split: if_splits)
    have 1: "bid' \<le> seq_books ?db'"
      using cache_books_okD(1) [OF i(3) b0(1)] by simp
    have 2: "bid' \<notin> set (open_loan_books ?db')" if a: "is_available b'"
    proof -
      from a b0(2) have ne: "ba' \<noteq> ba" "b' = b0"
        by (auto simp: is_available_def split: if_splits)
      with a have "bid' \<notin> set (open_loan_books ?w)"
        using cache_books_okD(2) [OF i(3) b0(1)] by simp
      moreover have "bid' \<noteq> bid"
        using b0(1) fb ne by auto
      ultimately show ?thesis unfolding o by simp
    qed
    from 1 2 show "bid' \<le> seq_books ?db' \<and> (is_available b' \<longrightarrow> bid' \<notin> set (open_loan_books ?db'))"
      by blast
  qed
  have gl: "get_loans ?s' = get_loans s @ [(next_loan s, ?l)]"
  proof -
    have "deref ((loan_heap s)(next_loan s \<mapsto> ?l)) (cache_loans s) = deref (loan_heap s) (cache_loans s)"
      using nc by (intro deref_cong) auto
    then show ?thesis
      by (simp add: get_loans_def deref_append deref_Cons)
  qed
  have bk_same: "book_id (the (book_heap ?s' a)) = book_id (the (book_heap s a))" for a
    using fbD by simp
  have cl: "cache_loans_ok ?s' ?db'"
    unfolding cache_loans_ok_def
  proof (intro allI impI)
    fix lid la l assume f: "find_loan ?s' lid = Some (la, l)" and op: "return_date l = None"
    show "\<exists>r \<in> set (loans ?db'). lr_id r = lid \<and> lr_return_date r = None
             \<and> lr_book_id r = book_id (the (book_heap ?s' (loan_book l)))"
    proof (cases "find_loan s lid")
      case None
      with f have "(la, l) = (next_loan s, ?l)" "?lid = lid"
        unfolding find_loan_def gl by (auto simp: find_append_cases split: if_splits)
      then have "lr_book_id \<lparr>lr_id = ?lid, lr_book_id = bid, lr_user_id = uid,
                  lr_issue_date = now, lr_return_date = None\<rparr> = book_id (the (book_heap ?s' (loan_book l)))"
        using fbD by auto
      with \<open>?lid = lid\<close> show ?thesis
        by (simp add: loans_insert_loan)
    next
      case (Some p)
      with f have f0: "find_loan s lid = Some (la, l)"
        unfolding find_loan_def gl by (simp add: find_append_cases)
      from cache_loans_okD [OF i(4) f0 op] show ?thesis
        unfolding bk_same by (auto simp: loans_insert_loan)
    qed
  qed
  show ?thesis
    using h st cb cl by (intro lending_invI) simp_all
qed

lemma issue_book_inv:
  assumes inv: "lending_inv s"
  shows "lending_inv (fst (issue_book s now uid bid))"
proof (cases "find_user s uid")
  case None
  from issue_book_logged_failure(1) [OF this] inv show ?thesis
    by (simp add: issue_book_def)
next
  case (Some p)
  obtain ua u where p: "p = (ua, u)" by (cases p)
  note fu = Some [unfolded p]
  show ?thesis
  proof (cases "find_book s bid")
    case None
    from issue_book_logged_failure(2) [OF fu this] inv show ?thesis
      by (simp add: issue_book_def)
  next
    case (Some q)
    obtain ba b where q: "q = (ba, b)" by (cases q)
    note fb = Some [unfolded q]
    show ?thesis
    proof (cases "is_available b")
      case False
      from issue_book_logged_failure(3) [OF fu fb this] inv show ?thesis
        by (simp add: issue_book_def)
    next
      case True
      note av = this
      show ?thesis
      proof (cases "length (borrowed_books u) < 3")
        case False
        from issue_book_logged_failure(4) [OF fu fb av this] inv show ?thesis
          by (simp add: issue_book_def)
      next
        case True
        from issue_success_inv [OF inv fu fb av, of now]
        show ?thesis
          unfolding issue_book_def issue_book_logged_success [OF fu fb av True] by simp
      qed
    qed
  qed
qed

lemma return_rows_kept:
  assumes "r \<in> set (loans db)" and "lr_id r \<noteq> lid"
  shows "r \<in> set (loans (update_book_status (update_loan_return_date db lid now) bk st))"
proof -
  have "r \<in> set (map (\<lambda>r. if lr_id r = lid then r\<lparr>lr_return_date := Some now\<rparr> else r) (loans db))"
    using assms by (force simp: image_iff)
  then show ?thesis
    by (simp add: update_loan_return_date_def)
qed

lemma return_book_frees:
  assumes ok: "store_ok db"
    and row: "\<exists>r \<in> set (loans db). lr_id r = lid \<and> lr_return_date r = None \<and> lr_book_id r = bk"
  shows "bk \<notin> set (open_loan_books (update_book_status (update_loan_return_date db lid now) bk st))"
proof
  let ?open = "filter (\<lambda>r. lr_return_date r = None) (loans db)"
  assume "bk \<in> set (open_loan_books (update_book_status (update_loan_return_date db lid now) bk st))"
  then obtain r1 where r1: "r1 \<in> set ?open" "lr_id r1 \<noteq> lid" "lr_book_id r1 = bk"
    by (auto simp: open_loan_books_def open_after_return)
  from row obtain r0 where r0: "r0 \<in> set ?open" "lr_id r0 = lid" "lr_book_id r0 = bk"
    by auto
  have "distinct (map lr_book_id ?open)"
    using store_okD(1) [OF ok] by (simp add: open_loan_books_def)
  then have "inj_on lr_book_id (set ?open)"
    by (simp add: distinct_map)
  with r0 r1 have "r0 = r1"
    by (auto dest: inj_onD)
  with r0 r1 show False by simp
qed

lemma open_after_return_subset:
  "set (open_loan_books (update_book_status (update_loan_return_date db lid now) bk st))
     \<subseteq> set (open_loan_books db)"
  by (auto simp: open_loan_books_def open_after_return)

lemma return_book_inv:
  assumes inv: "lending_inv s"
  shows "lending_inv (fst (return_book s now lid))"
proof (cases "find_loan s lid")
  case None
  from return_book_failure(1) [OF this] inv show ?thesis by simp
next
  case (Some p)
  obtain la l where p: "p = (la, l)" by (cases p)
  note fl = Some [unfolded p]
  show ?thesis
  proof (cases "return_date l = None")
    case False
    from return_book_failure(2) [OF fl this] inv show ?thesis by simp
  next
    case True
    note op = this
    note i = lending_invD [OF inv]
    note flD = find_loan_SomeD [OF fl]
    from heap_okD(3) [OF i(1)] flD obtain b0 where b0: "book_heap s (loan_book l) = Some b0"
      by blast
    let ?w = "working (conn s)"
    let ?bk = "book_id b0"
    let ?db' = "update_book_status (update_loan_return_date ?w lid now) ?bk STATUS_AVAILABLE"
    let ?b2 = "b0\<lparr>book_status := STATUS_AVAILABLE\<rparr>"
    let ?l2 = "l\<lparr>return_date := Some now\<rparr>"
    let ?s' = "s\<lparr>conn := \<lparr>committed = ?db', working = ?db'\<rparr>,
       loan_heap := (loan_heap s)(la \<mapsto> ?l2),
       book_heap := (book_heap s)(loan_book l \<mapsto> ?b2),
       user_heap := (user_heap s)(loan_user l \<mapsto>
                       fst (user_return_book (the (user_heap s (loan_user l))) (loan_book l)))\<rparr>"
    have eq: "fst (return_book s now lid) = ?s'"
      using return_book_success [OF fl op, of now] b0 by simp
    from cache_loans_okD [OF i(4) fl op] b0
    have row: "\<exists>r \<in> set (loans ?w). lr_id r = lid \<and> lr_return_date r = None \<and> lr_book_id r = ?bk"
      by simp
    have st: "store_ok ?db'"
      using i(2) row by (rule store_ok_return)
    have h: "heap_ok ?s'"
    proof (rule heap_okI)
      fix a x assume "book_heap ?s' a = Some x"
      then show "a < next_book ?s'"
        using heap_okD(1) [OF i(1), of a x] heap_okD(1) [OF i(1) b0]
        by (auto split: if_splits)
    next
      fix a x assume "loan_heap ?s' a = Some x"
      then show "a < next_loan ?s'"
        using heap_okD(2) [OF i(1), of a x] heap_okD(2) [OF i(1), of la l] flD
        by (auto split: if_splits)
    next
      fix a x assume "loan_heap ?s' a = Some x"
      then show "\<exists>b. book_heap ?s' (loan_book x) = Some b"
        using heap_okD(3) [OF i(1), of a x] heap_okD(3) [OF i(1), of la l] flD
        by (auto split: if_splits)
    next
      fix a assume "a \<in> set (cache_books ?s')"
      then show "a < next_book ?s'"
        using heap_okD(4) [OF i(1), of a] by simp
    next
      fix a assume "a \<in> set (cache_loans ?s')"
      then show "a < next_loan ?s'"
        using heap_okD(5) [OF i(1), of a] by simp
    qed
    have fb': "find_book ?s' bid' =
        map_option (\<lambda>(a, x). if a = loan_book l then (a, ?b2) else (a, x)) (find_book s bid')" for bid'
      using find_deref_update_same_key [of "book_heap s" "loan_book l" b0 book_id ?b2 bid' "cache_books s"] b0
      by (simp add: find_book_def get_books_def)
    have fl': "find_loan ?s' lid' =
        map_option (\<lambda>(a, x). if a = la then (a, ?l2) else (a, x)) (find_loan s lid')" for lid'
      using find_deref_update_same_key [of "loan_heap s" la l loan_id ?l2 lid' "cache_loans s"] flD
      by (simp add: find_loan_def get_loans_def)
    have cb: "cache_books_ok ?s' ?db'"
      unfolding cache_books_ok_def
    proof (intro allI impI)
      fix bid' ba' b' assume f: "find_book ?s' bid' = Some (ba', b')"
      then obtain b1 where b1: "find_book s bid' = Some (ba', b1)"
          "b' = (if ba' = loan_book l then ?b2 else b1)"
        unfolding fb' by (auto split: if_splits)
      have 1: "bid' \<le> seq_books ?db'"
        using cache_books_okD(1) [OF i(3) b1(1)] by simp
      have 2: "bid' \<notin> set (open_loan_books ?db')" if a: "is_available b'"
      proof (cases "ba' = loan_book l")
        case True
        with find_book_SomeD [OF b1(1)] b0 have "bid' = ?bk" by simp
        with return_book_frees [OF i(2) row] show ?thesis by simp
      next
        case False
        with a b1(2) have "is_available b1" by simp
        from cache_books_okD(2) [OF i(3) b1(1) this] open_after_return_subset [of ?w lid now ?bk STATUS_AVAILABLE]
        show ?thesis by blast
      qed
      from 1 2 show "bid' \<le> seq_books ?db' \<and> (is_available b' \<longrightarrow> bid' \<notin> set (open_loan_books ?db'))"
        by blast
    qed
    have bk_same: "book_id (the (book_heap ?s' a)) = book_id (the (book_heap s a))" for a
      using b0 by simp
    have cl: "cache_loans_ok ?s' ?db'"
      unfolding cache_loans_ok_def
    proof (intro allI impI)
      fix lid' la' l' assume f: "find_loan ?s' lid' = Some (la', l')" and op': "return_date l' = None"
      from f obtain l1 where l1: "find_loan s lid' = Some (la', l1)"
          "l' = (if la' = la then ?l2 else l1)"
        unfolding fl' by (auto split: if_splits)
      from l1(2) op' have ne: "la' \<noteq> la" "l' = l1"
        by (auto split: if_splits)
      have "lid' \<noteq> lid"
        using l1(1) fl ne by auto
      from cache_loans_okD [OF i(4) l1(1)] op' ne
      obtain r where r: "r \<in> set (loans ?w)" "lr_id r = lid'" "lr_return_date r = None"
          "lr_book_id r = book_id (the (book_heap s (loan_book l')))"
        by auto
      from return_rows_kept [OF r(1), of lid now ?bk STATUS_AVAILABLE] r(2) \<open>lid' \<noteq> lid\<close>
      have "r \<in> set (loans ?db')" by simp
      with r show "\<exists>r \<in> set (loans ?db'). lr_id r = lid' \<and> lr_return_date r = None
             \<and> lr_book_id r = book_id (the (book_heap ?s' (loan_book l')))"
        unfolding bk_same by blast
    qed
    have "lending_inv ?s'"
      using h st cb cl by (intro lending_invI) simp_all
    then show ?thesis unfolding eq .
  qed
qed

lemma reload_users_parts:
  "heap_ok (reload_users s) = heap_ok s"
  "cache_books_ok (reload_users s) db = cache_books_ok s db"
  "cache_loans_ok (reload_users s) db = cache_loans_ok s db"
proof -
  obtain s' as where al: "alloc_users (map user_of_row (users (working (conn s)))) s = (s', as)"
    by (cases "alloc_users (map user_of_row (users (working (conn s)))) s") auto
  note p = alloc_users_props [OF al]
  have rb: "reload_users s = s'\<lparr>cache_users := as\<rparr>"
    using al by (simp add: reload_users_def load_users_def)
  show "heap_ok (reload_users s) = heap_ok s"
    "cache_books_ok (reload_users s) db = cache_books_ok s db"
    "cache_loans_ok (reload_users s) db = cache_loans_ok s db"
    unfolding rb using p by (intro inv_parts_cong; simp)+
qed

lemma reload_users_inv [simp]: "lending_inv (reload_users s) = lending_inv s"
  by (simp add: lending_inv_def cache_ok_def reload_users_parts)

lemma reload_loans_inv:
  assumes hs: "heap_ok s" and cb: "cache_books_ok s db"
  shows "heap_ok (reload_loans s) \<and> cache_books_ok (reload_loans s) db
     \<and> cache_loans_ok (reload_loans s) (working (conn s)) \<and> conn (reload_loans s) = conn s"
proof -
  let ?rs = "loans (working (conn s))"
  obtain s' as where ld: "load_loan_rows ?rs s = (s', as)"
    by (cases "load_loan_rows ?rs s") auto
  note p = load_loan_rows_props [OF ld hs]
  let ?t = "s'\<lparr>cache_loans := as\<rparr>"
  have rl: "reload_loans s = ?t"
    using ld by (simp add: reload_loans_def load_loans_def)
  from p have hs': "heap_ok s'" by simp
  have as: "\<And>a. a \<in> set as \<Longrightarrow> \<exists>l r b. loan_heap s' a = Some l \<and> r \<in> set ?rs \<and> loan_id l = lr_id r
              \<and> return_date l = lr_return_date r
              \<and> book_heap s' (loan_book l) = Some b \<and> book_id b = lr_book_id r"
    using p by blast
  have h: "heap_ok ?t"
  proof (rule heap_okI)
    fix a x assume "book_heap ?t a = Some x"
    then show "a < next_book ?t" using heap_okD(1) [OF hs', of a x] by simp
  next
    fix a l assume "loan_heap ?t a = Some l"
    then show "a < next_loan ?t" using heap_okD(2) [OF hs', of a l] by simp
  next
    fix a l assume "loan_heap ?t a = Some l"
    then show "\<exists>b. book_heap ?t (loan_book l) = Some b" using heap_okD(3) [OF hs', of a l] by simp
  next
    fix a assume "a \<in> set (cache_books ?t)"
    then show "a < next_book ?t" using heap_okD(4) [OF hs', of a] by simp
  next
    fix a assume "a \<in> set (cache_loans ?t)"
    with as obtain l where "loan_heap s' a = Some l" by fastforce
    from heap_okD(2) [OF hs' this] show "a < next_loan ?t" by simp
  qed
  have "deref (book_heap s') (cache_books s) = deref (book_heap s) (cache_books s)"
    using heap_okD(4) [OF hs] p by (intro deref_cong) simp
  then have "get_books ?t = get_books s"
    using p by (simp add: get_books_def)
  then have cb': "cache_books_ok ?t db"
    using cb cache_books_ok_cong by blast
  have cl: "cache_loans_ok ?t (working (conn s))"
    unfolding cache_loans_ok_def
  proof (intro allI impI)
    fix lid la l assume f: "find_loan ?t lid = Some (la, l)" and op: "return_date l = None"
    from find_loan_SomeD [OF f] have fD: "loan_heap s' la = Some l" "la \<in> set as" "loan_id l = lid"
      by simp_all
    from as [OF fD(2)] fD(1) obtain r b where "r \<in> set ?rs" "loan_id l = lr_id r"
        "return_date l = lr_return_date r" "book_heap s' (loan_book l) = Some b" "book_id b = lr_book_id r"
      by auto
    with fD(3) op show "\<exists>r \<in> set ?rs. lr_id r = lid \<and> lr_return_date r = None
             \<and> lr_book_id r = book_id (the (book_heap ?t (loan_book l)))"
      by auto
  qed
  have "conn ?t = conn s" using p by simp
  with h cb' cl show ?thesis unfolding rl by simp
qed

lemma insert_author_ok:
  assumes "insert_author db name bio = Inr (db', i)" and "store_ok db"
  shows "store_ok db' \<and> loans db' = loans db"
proof -
  note f = insert_author_frame [OF assms(1)]
  have "store_ok db'"
    using assms(2) by (rule store_ok_books_same) (simp_all add: f)
  with f show ?thesis by simp
qed

lemma insert_book_ok:
  assumes "insert_book db title aid year st = Inr (db', i)" and "store_ok db"
  shows "store_ok db' \<and> loans db' = loans db"
  using store_ok_insert_book [OF assms(2) assms(1)] insert_book_frame [OF assms(1)] by simp

lemma insert_user_ok:
  assumes "store_ok db"
  shows "store_ok (fst (insert_user db name)) \<and> loans (fst (insert_user db name)) = loans db"
proof -
  have "store_ok (fst (insert_user db name))"
    using assms by (rule store_ok_books_same) simp_all
  then show ?thesis by simp
qed

lemma demo_rows_props:
  assumes d: "demo_rows db = Inr db'" and st: "store_ok db"
  shows "store_ok db' \<and> loans db' = loans db"
proof (cases "insert_author db ''Lev Tolstoy'' ''Velikiy russkiy pisatel''")
  case (Inl e)
  with d show ?thesis by (simp add: demo_rows_def)
next
  case (Inr p1)
  obtain db1 a1 where p1: "p1 = (db1, a1)" by (cases p1)
  note s1 = Inr [unfolded p1]
  note o1 = insert_author_ok [OF s1 st]
  show ?thesis
  proof (cases "insert_author db1 ''Fyodor Dostoevskiy'' ''Klassik russkoy literatury''")
    case (Inl e)
    with d s1 show ?thesis by (simp add: demo_rows_def)
  next
    case (Inr p2)
    obtain db2 a2 where p2: "p2 = (db2, a2)" by (cases p2)
    note s2 = Inr [unfolded p2]
    from o1 have st1: "store_ok db1" by simp
    note o2 = insert_author_ok [OF s2 st1]
    show ?thesis
    proof (cases "insert_book db2 ''Voyna i mir'' a1 1869 STATUS_AVAILABLE")
      case (Inl e)
      with d s1 s2 show ?thesis by (simp add: demo_rows_def)
    next
      case (Inr p3)
      obtain db3 b3 where p3: "p3 = (db3, b3)" by (cases p3)
      note s3 = Inr [unfolded p3]
      from o2 have st2: "store_ok db2" by simp
      note o3 = insert_book_ok [OF s3 st2]
      show ?thesis
      proof (cases "insert_book db3 ''Prestuplenie i nakazanie'' a2 1866 STATUS_AVAILABLE")
        case (Inl e)
        with d s1 s2 s3 show ?thesis by (simp add: demo_rows_def)
      next
        case (Inr p4)
        obtain db4 b4 where p4: "p4 = (db4, b4)" by (cases p4)
        note s4 = Inr [unfolded p4]
        from o3 have st3: "store_ok db3" by simp
        note o4 = insert_book_ok [OF s4 st3]
        from o4 have st4: "store_ok db4" by simp
        note o5 = insert_user_ok [OF st4, of "''Ivan Ivanov''"]
        from o5 have st5: "store_ok (fst (insert_user db4 ''Ivan Ivanov''))" by simp
        note o6 = insert_user_ok [OF st5, of "''Mariya Petrova''"]
        have "db' = fst (insert_user (fst (insert_user db4 ''Ivan Ivanov'')) ''Mariya Petrova'')"
          using d s1 s2 s3 s4 by (simp add: demo_rows_def)
        with o1 o2 o3 o4 o5 o6 show ?thesis by simp
      qed
    qed
  qed
qed

lemma remove_book_inv:
  assumes inv: "lending_inv s"
  shows "lending_inv (fst (remove_book s bid))"
proof (cases "sqlite_int bid")
  case False
  with inv show ?thesis by (simp add: remove_book_def)
next
  case True
  note i = lending_invD [OF inv]
  have "lending_inv (reload_books (s\<lparr>conn := \<lparr>committed = delete_book (working (conn s)) bid,
      working = delete_book (working (conn s)) bid\<rparr>\<rparr>))"
    using i(1) i(4) by (rule catalog_commit_inv) (simp_all add: store_ok_delete_book i(2))
  with True show ?thesis
    by (simp add: remove_book_def)
qed

lemma add_book_inv:
  assumes inv: "lending_inv s"
  shows "lending_inv (fst (add_book s title name bio year))"
proof -
  note i = lending_invD [OF inv]
  let ?w = "working (conn s)"
  let ?r = "case find (\<lambda>a. author_name a = name) (authors ?w) of
              Some a \<Rightarrow> Inr (?w, author_id a) | None \<Rightarrow> insert_author ?w name bio"
  show ?thesis
  proof (cases ?r)
    case (Inl e)
    then have "fst (add_book s title name bio year) = s\<lparr>conn := rollback (conn s)\<rparr>"
      by (simp add: add_book_def)
    then show ?thesis using rollback_inv [OF inv] by simp
  next
    case (Inr p)
    obtain db1 aid where p: "p = (db1, aid)" by (cases p)
    have db1: "store_ok db1 \<and> loans db1 = loans ?w \<and> seq_books db1 = seq_books ?w"
    proof (cases "find (\<lambda>a. author_name a = name) (authors ?w)")
      case None
      with Inr p have ins: "insert_author ?w name bio = Inr (db1, aid)" by simp
      from insert_author_ok [OF ins i(2)] insert_author_frame [OF ins] show ?thesis
        by simp
    next
      case (Some a)
      with Inr p have "db1 = ?w" by simp
      with i(2) show ?thesis by simp
    qed
    show ?thesis
    proof (cases "sqlite_int year")
      case False
      with Inr p have "fst (add_book s title name bio year) = s\<lparr>conn := (conn s)\<lparr>working := db1\<rparr>\<rparr>"
        by (simp add: add_book_def)
      moreover have "lending_inv (s\<lparr>conn := (conn s)\<lparr>working := db1\<rparr>\<rparr>)"
        using inv db1 by (intro pending_inv) simp_all
      ultimately show ?thesis by simp
    next
      case True
      note yr = this
      show ?thesis
      proof (cases "insert_book db1 title aid year STATUS_AVAILABLE")
        case (Inl e)
        with Inr p yr have "fst (add_book s title name bio year) = s\<lparr>conn := rollback (conn s)\<rparr>"
          by (simp add: add_book_def)
        then show ?thesis using rollback_inv [OF inv] by simp
      next
        case (Inr q)
        obtain db2 bid where q: "q = (db2, bid)" by (cases q)
        from Inr q have ins: "insert_book db1 title aid year STATUS_AVAILABLE = Inr (db2, bid)" by simp
        from db1 have st1: "store_ok db1" by simp
        have st: "store_ok db2" and l: "loans db2 = loans ?w"
          using insert_book_ok [OF ins st1] db1 by simp_all
        have "lending_inv (reload_books (s\<lparr>conn := \<lparr>committed = db2, working = db2\<rparr>\<rparr>))"
          using i(1) i(4) st l by (rule catalog_commit_inv)
        moreover have "fst (add_book s title name bio year) =
            reload_authors (reload_books (s\<lparr>conn := \<lparr>committed = db2, working = db2\<rparr>\<rparr>))"
          using \<open>?r = Inr p\<close> p ins yr by (simp add: add_book_def)
        ultimately show ?thesis by simp
      qed
    qed
  qed
qed

lemma edit_steps_ok:
  assumes "store_ok db"
  shows "edit_title db bid title = Inr db' \<Longrightarrow>
           store_ok db' \<and> loans db' = loans db \<and> seq_books db' = seq_books db"
    and "edit_year db bid year = Inr db' \<Longrightarrow>
           store_ok db' \<and> loans db' = loans db \<and> seq_books db' = seq_books db"
    and "edit_bio db bid bio = Inr db' \<Longrightarrow>
           store_ok db' \<and> loans db' = loans db \<and> seq_books db' = seq_books db"
proof -
  show "edit_title db bid title = Inr db' \<Longrightarrow>
           store_ok db' \<and> loans db' = loans db \<and> seq_books db' = seq_books db"
    using assms by (auto simp: edit_title_def store_ok_update_book_title split: option.splits if_splits)
  show "edit_year db bid year = Inr db' \<Longrightarrow>
           store_ok db' \<and> loans db' = loans db \<and> seq_books db' = seq_books db"
    using assms by (auto simp: edit_year_def store_ok_update_book_year split: option.splits if_splits)
  have "store_ok (update_author_bio_of_book db bid t)" for t
    using assms by (rule store_ok_books_same) simp_all
  then show "edit_bio db bid bio = Inr db' \<Longrightarrow>
           store_ok db' \<and> loans db' = loans db \<and> seq_books db' = seq_books db"
    using assms by (auto simp: edit_bio_def split: option.splits if_splits)
qed

lemma edit_steps_raise:
  "edit_title db bid title = Inl (db', e) \<Longrightarrow> db' = db"
  "edit_year db bid year = Inl (db', e) \<Longrightarrow> db' = db"
  "edit_bio db bid bio = Inl (db', e) \<Longrightarrow> db' = db"
  by (auto simp: edit_title_def edit_year_def edit_bio_def split: option.splits if_splits)

lemma edit_book_inv:
  assumes inv: "lending_inv s"
  shows "lending_inv (fst (edit_book s bid title year bio))"
proof -
  note i = lending_invD [OF inv]
  let ?w = "working (conn s)"
  have pend: "lending_inv (s\<lparr>conn := (conn s)\<lparr>working := db\<rparr>\<rparr>)"
    if "store_ok db \<and> loans db = loans ?w \<and> seq_books db = seq_books ?w" for db
    using inv that by (intro pending_inv) simp_all
  have w: "store_ok ?w \<and> loans ?w = loans ?w \<and> seq_books ?w = seq_books ?w"
    using i(2) by simp
  show ?thesis
  proof (cases "edit_title ?w bid title")
    case (Inl p)
    obtain db e where p: "p = (db, e)" by (cases p)
    from edit_steps_raise(1) [OF Inl [unfolded p]] have "db = ?w" .
    with Inl p pend [OF w] show ?thesis
      by (simp add: edit_book_def)
  next
    case (Inr db1)
    note t1 = this
    from edit_steps_ok(1) [OF i(2) t1] have o1: "store_ok db1 \<and> loans db1 = loans ?w \<and> seq_books db1 = seq_books ?w" .
    then have st1: "store_ok db1" by simp
    show ?thesis
    proof (cases "edit_year db1 bid year")
      case (Inl p)
      obtain db e where p: "p = (db, e)" by (cases p)
      from edit_steps_raise(2) [OF Inl [unfolded p]] have "db = db1" .
      with Inl p t1 pend [OF o1] show ?thesis
        by (simp add: edit_book_def)
    next
      case (Inr db2)
      note t2 = this
      from edit_steps_ok(2) [OF st1 t2] o1
      have o2: "store_ok db2 \<and> loans db2 = loans ?w \<and> seq_books db2 = seq_books ?w" by simp
      then have st2: "store_ok db2" by simp
      show ?thesis
      proof (cases "edit_bio db2 bid bio")
        case (Inl p)
        obtain db e where p: "p = (db, e)" by (cases p)
        from edit_steps_raise(3) [OF Inl [unfolded p]] have "db = db2" .
        with Inl p t1 t2 pend [OF o2] show ?thesis
          by (simp add: edit_book_def)
      next
        case (Inr db3)
        from edit_steps_ok(3) [OF st2 Inr] o2
        have o3: "store_ok db3" "loans db3 = loans ?w" by simp_all
        have "lending_inv (reload_books (s\<lparr>conn := \<lparr>committed = db3, working = db3\<rparr>\<rparr>))"
          using i(1) i(4) o3 by (rule catalog_commit_inv)
        with Inr t1 t2 show ?thesis
          by (simp add: edit_book_def)
      qed
    qed
  qed
qed

lemma init_demo_data_inv:
  assumes inv: "lending_inv s"
  shows "lending_inv (init_demo_data s)"
proof (cases "demo_rows (working (conn s))")
  case (Inl e)
  then show ?thesis
    using rollback_inv [OF inv] by (simp add: init_demo_data_def)
next
  case (Inr db')
  note i = lending_invD [OF inv]
  from demo_rows_props [OF Inr i(2)] have "store_ok db'" "loans db' = loans (working (conn s))"
    by simp_all
  with i(1) i(4) have "lending_inv (reload_books (s\<lparr>conn := \<lparr>committed = db', working = db'\<rparr>\<rparr>))"
    by (rule catalog_commit_inv)
  then show ?thesis
    using Inr by (simp add: init_demo_data_def)
qed

lemma init_inv:
  assumes st: "store_ok db"
  shows "lending_inv (init db)"
proof -
  let ?s0 = "empty_system db"
  have h0: "heap_ok ?s0"
    by (simp add: heap_ok_def empty_system_def)
  have c0: "cache_loans_ok ?s0 db"
    by (simp add: cache_loans_ok_def find_loan_def get_loans_def empty_system_def)
  have w0: "working (conn ?s0) = db" "conn ?s0 = \<lparr>committed = db, working = db\<rparr>"
    by (simp_all add: empty_system_def)
  from reload_books_inv [OF h0 _ c0] st w0
  have 1: "heap_ok (reload_books ?s0)" "cache_books_ok (reload_books ?s0) db"
    by simp_all
  let ?s2 = "reload_users (reload_books ?s0)"
  from 1 have 2: "heap_ok ?s2" "cache_books_ok ?s2 db"
    by (simp_all add: reload_users_parts)
  have w2: "conn ?s2 = \<lparr>committed = db, working = db\<rparr>"
    using w0 by simp
  from reload_loans_inv [OF 2] w2
  have 3: "heap_ok (reload_loans ?s2)" "cache_books_ok (reload_loans ?s2) db"
    "cache_loans_ok (reload_loans ?s2) db" "conn (reload_loans ?s2) = \<lparr>committed = db, working = db\<rparr>"
    by simp_all
  then have "lending_inv (reload_loans ?s2)"
    using st by (intro lending_invI) simp_all
  then have 4: "lending_inv (reload_authors (reload_loans ?s2))"
    by simp
  show ?thesis
    unfolding init_def Let_def using 4 init_demo_data_inv [OF 4] by simp
qed

subsection \<open>Reachable states\<close>

lemma consistent_store_ok: "consistent_store db \<Longrightarrow> store_ok db"
  unfolding consistent_store_def store_ok_def list_all_iff
  by (auto simp: image_iff) 

lemma run_call_inv:
  assumes "lending_inv s"
  shows "lending_inv (run_call s c)"
proof (cases c)
  case (AddBook title name bio year)
  then show ?thesis using add_book_inv [OF assms] by simp
next
  case (RemoveBook bid)
  then show ?thesis using remove_book_inv [OF assms] by simp
next
  case (EditBook bid title year bio)
  then show ?thesis using edit_book_inv [OF assms] by simp
next
  case (RegisterUser name)
  then show ?thesis using register_user_inv [OF assms] by simp
next
  case (EditUser uid name)
  then show ?thesis using edit_user_inv [OF assms] by simp
next
  case (DeleteUser uid)
  then show ?thesis using delete_user_inv [OF assms] by simp
next
  case (IssueBook now uid bid)
  then show ?thesis using issue_book_inv [OF assms] by simp
next
  case (ReturnBook now lid)
  then show ?thesis using return_book_inv [OF assms] by simp
next
  case Restart
  from lending_invD(5) [OF assms] have "lending_inv (init (committed (conn s)))"
    by (rule init_inv)
  with Restart show ?thesis by simp
qed

lemma reachable_inv: "reachable s \<Longrightarrow> lending_inv s"
proof (induction rule: reachable.induct)
  case (start db)
  then show ?case by (intro init_inv consistent_store_ok)
next
  case (step s c)
  then show ?case by (intro run_call_inv)
qed

lemma distinct_map_count: "distinct (map f xs) \<Longrightarrow> length (filter (\<lambda>x. f x = b) xs) \<le> 1"
  by (induction xs) (auto simp: filter_empty_conv image_iff)

lemma open_loans_count:
  assumes "distinct (open_loan_books db)"
  shows "length (filter (\<lambda>r. lr_book_id r = bid \<and> lr_return_date r = None) (loans db)) \<le> 1"
proof -
  have "filter (\<lambda>r. lr_book_id r = bid \<and> lr_return_date r = None) (loans db) =
      filter (\<lambda>r. lr_book_id r = bid) (filter (\<lambda>r. lr_return_date r = None) (loans db))"
    by (simp add: conj_commute)
  then show ?thesis
    using distinct_map_count [OF assms [unfolded open_loan_books_def], of bid] by simp
qed

text \<open>
  Claim C2. In every state reachable from an engine built on a consistent store, by any
  calls and restarts, no book has two open loans: the open loans of the store, durable
  and as the connection sees it, name distinct books, so for every book id at most one
  stored loan without a return date refers to it.
\<close>

theorem single_open_loan_per_book:
  assumes "reachable s"
  shows "distinct (open_loan_books (committed (conn s)))
    \<and> distinct (open_loan_books (working (conn s)))
    \<and> length (filter (\<lambda>r. lr_book_id r = bid \<and> lr_return_date r = None)
          (loans (committed (conn s)))) \<le> 1
    \<and> length (filter (\<lambda>r. lr_book_id r = bid \<and> lr_return_date r = None)
          (loans (working (conn s)))) \<le> 1"
proof -
  note i = lending_invD [OF reachable_inv [OF assms]]
  note w = store_okD(1) [OF i(2)] and c = store_okD(1) [OF i(5)]
  from w c open_loans_count [OF w, of bid] open_loans_count [OF c, of bid] show ?thesis
    by blast
qed

theorem single_open_loan_per_book_witness:
  "consistent_store example_db \<and> reachable example_system3
   \<and> open_loan_books (committed (conn example_system3)) = [1, 2, 3, 4]
   \<and> distinct (open_loan_books (committed (conn example_system3)))
   \<and> length (filter (\<lambda>r. lr_book_id r = 2 \<and> lr_return_date r = None)
          (loans (committed (conn example_system3)))) \<le> 1"
proof -
  have c: "consistent_store example_db"
    by code_simp
  then have "reachable example_system"
    unfolding example_system_def by (rule reachable.start)
  then have "reachable (run_call (run_call (run_call example_system (IssueBook 200 2 2))
      (IssueBook 300 2 3)) (IssueBook 400 2 4))"
    by (intro reachable.step)
  then have r: "reachable example_system3"
    by (simp add: example_system3_def)
  have o: "open_loan_books (committed (conn example_system3)) = [1, 2, 3, 4]"
    by code_simp
  from single_open_loan_per_book [OF r, of 2] c r o show ?thesis
    by simp
qed

end
